theory Spec2Isabelle
  imports Complex_Main "HOL-Library.Char_ord"
begin

section \<open>Strings and regular expressions\<close>

text \<open>
  A JavaScript string is modelled by the list of its code units, as a HOL \<open>string\<close>;
  the model covers the strings whose code units are below 256. The regular expressions
  of the sources use literals, character classes, greedy quantifiers on a character
  class, optional groups, one capturing group, the anchors \<open>^\<close> and \<open>$\<close> and the
  flag \<open>i\<close> (\<open>StrI\<close> is a literal matched without regard to case). The
  matcher below is the backtracking search of the JavaScript engine on that fragment:
  alternatives are tried in priority order (a greedy quantifier tries the longest run
  first), and the continuation \<open>k\<close> is the rest of the pattern.
\<close>

datatype regex =
    Str string
  | Cls "char \<Rightarrow> bool"
  | Rep "char \<Rightarrow> bool" nat "nat option"
  | Seq regex regex
  | Opt regex
  | Alt regex regex
  | Group regex
  | Eol
  | StrI string

fun first_some :: "('a \<Rightarrow> 'b option) \<Rightarrow> 'a list \<Rightarrow> 'b option" where
  "first_some f [] = None"
| "first_some f (x # xs) = (case f x of Some r \<Rightarrow> Some r | None \<Rightarrow> first_some f xs)"

fun strip_prefix :: "string \<Rightarrow> string \<Rightarrow> string option" where
  "strip_prefix [] s = Some s"
| "strip_prefix (c # cs) [] = None"
| "strip_prefix (c # cs) (x # xs) = (if c = x then strip_prefix cs xs else None)"

definition canonicalize :: "char \<Rightarrow> char" where
  \<comment> \<open>the case folding of the \<open>i\<close> flag on the code units below 256\<close>
  "canonicalize c =
     (if (CHR ''a'' \<le> c \<and> c \<le> CHR ''z'') \<or> (CHR 0xE0 \<le> c \<and> c \<le> CHR 0xFE \<and> c \<noteq> CHR 0xF7)
      then char_of (of_char c - (32 :: nat)) else c)"

fun rmatch ::
  "regex \<Rightarrow> string \<Rightarrow> string option \<Rightarrow> (string \<Rightarrow> string option \<Rightarrow> 'r option) \<Rightarrow> 'r option"
where
  "rmatch (Str l) s cap k = (case strip_prefix l s of None \<Rightarrow> None | Some s' \<Rightarrow> k s' cap)"
| "rmatch (Cls p) s cap k = (case s of [] \<Rightarrow> None | x # xs \<Rightarrow> if p x then k xs cap else None)"
| "rmatch (Rep p lo hi) s cap k =
     (let run = length (takeWhile p s);
          most = (case hi of None \<Rightarrow> run | Some h \<Rightarrow> min h run)
      in first_some (\<lambda>n. k (drop n s) cap) (rev [lo ..< Suc most]))"
| "rmatch (Seq a b) s cap k = rmatch a s cap (\<lambda>s' cap'. rmatch b s' cap' k)"
| "rmatch (Opt a) s cap k =
     (case rmatch a s cap k of Some r \<Rightarrow> Some r | None \<Rightarrow> k s cap)"
| "rmatch (Alt a b) s cap k =
     (case rmatch a s cap k of Some r \<Rightarrow> Some r | None \<Rightarrow> rmatch b s cap k)"
| "rmatch (Group a) s cap k =
     rmatch a s cap (\<lambda>s' _. k s' (Some (take (length s - length s') s)))"
| "rmatch Eol s cap k = (if s = [] then k s cap else None)"
| "rmatch (StrI l) s cap k =
     (if length l \<le> length s \<and> map canonicalize (take (length l) s) = map canonicalize l
      then k (drop (length l) s) cap else None)"

definition seqs :: "regex list \<Rightarrow> regex" where
  "seqs rs = foldr Seq rs (Str [])"

abbreviation Plus :: "(char \<Rightarrow> bool) \<Rightarrow> regex" where
  "Plus p \<equiv> Rep p 1 None"

abbreviation Star :: "(char \<Rightarrow> bool) \<Rightarrow> regex" where
  "Star p \<equiv> Rep p 0 None"

text \<open>
  \<open>re_match_here r s\<close> is an attempt at the current position: the value of capture
  group 1 if the pattern matches a prefix of \<open>s\<close>. \<open>re_exec\<close> is \<open>String.prototype.match\<close>
  and \<open>RegExp.prototype.exec\<close> without the global flag: the leftmost position where
  an attempt succeeds. \<open>re_test\<close> is \<open>RegExp.prototype.test\<close>.
\<close>

definition re_match_here :: "regex \<Rightarrow> string \<Rightarrow> string option option" where
  "re_match_here r s = rmatch r s None (\<lambda>_ cap. Some cap)"

fun re_exec :: "regex \<Rightarrow> string \<Rightarrow> string option option" where
  "re_exec r [] = re_match_here r []"
| "re_exec r (c # cs) =
     (case re_match_here r (c # cs) of Some m \<Rightarrow> Some m | None \<Rightarrow> re_exec r cs)"

definition re_test :: "regex \<Rightarrow> string \<Rightarrow> bool" where
  "re_test r s = (re_exec r s \<noteq> None)"

text \<open>A pattern that begins with \<open>^\<close> (no multiline flag) can only match at index 0.\<close>

definition re_test_anchored :: "regex \<Rightarrow> string \<Rightarrow> bool" where
  "re_test_anchored r s = (re_match_here r s \<noteq> None)"

text \<open>The character classes of the sources.\<close>

definition is_id_char :: "char \<Rightarrow> bool" where
  \<comment> \<open>\<open>[a-zA-Z0-9_-]\<close>\<close>
  "is_id_char c \<longleftrightarrow>
     (CHR ''a'' \<le> c \<and> c \<le> CHR ''z'') \<or> (CHR ''A'' \<le> c \<and> c \<le> CHR ''Z'') \<or>
     (CHR ''0'' \<le> c \<and> c \<le> CHR ''9'') \<or> c = CHR ''_'' \<or> c = CHR ''-''"

definition is_space :: "char \<Rightarrow> bool" where
  \<comment> \<open>\<open>\s\<close>: tab, line feed, vertical tab, form feed, carriage return, space, no-break space\<close>
  "is_space c \<longleftrightarrow> c \<in> {CHR 0x09, CHR 0x0A, CHR 0x0B, CHR 0x0C, CHR 0x0D, CHR 0x20, CHR 0xA0}"

definition is_dot :: "char \<Rightarrow> bool" where
  \<comment> \<open>\<open>.\<close>: any character but a line terminator\<close>
  "is_dot c \<longleftrightarrow> c \<noteq> CHR 0x0A \<and> c \<noteq> CHR 0x0D"

definition not_dquote :: "char \<Rightarrow> bool" where
  \<comment> \<open>\<open>[^"]\<close>\<close>
  "not_dquote c \<longleftrightarrow> c \<noteq> CHR 0x22"

section \<open>utils/url-parser.js\<close>

definition http_prefix :: regex where
  \<comment> \<open>\<open>(?:https?:\/\/)?(?:www\.)?\<close>\<close>
  "http_prefix = Seq (Opt (seqs [Str ''http'', Opt (Str ''s''), Str ''://''])) (Opt (Str ''www.''))"

definition standardView :: regex where
  "standardView = seqs [http_prefix, Str ''drive.google.com/file/d/'',
     Group (Plus is_id_char), Opt (Str ''/view'')]"

definition openFormat :: regex where
  "openFormat = seqs [http_prefix, Str ''drive.google.com/open?id='', Group (Plus is_id_char)]"

definition docsFormat :: regex where
  "docsFormat = seqs [http_prefix, Str ''docs.google.com/'',
     Alt (Str ''document'') (Alt (Str ''spreadsheets'') (Str ''presentation'')),
     Str ''/d/'', Group (Plus is_id_char)]"

definition directDownload :: regex where
  "directDownload = seqs [http_prefix, Str ''drive.google.com/uc?'', Star is_dot,
     Cls (\<lambda>c. c = CHR ''&'' \<or> c = CHR ''?''), Str ''id='', Group (Plus is_id_char)]"

definition editFormat :: regex where
  "editFormat = seqs [http_prefix, Str ''drive.google.com/file/d/'',
     Group (Plus is_id_char), Str ''/edit'']"

definition GOOGLE_DRIVE_PATTERNS :: "(string \<times> regex) list" where
  "GOOGLE_DRIVE_PATTERNS =
     [(''standardView'', standardView), (''openFormat'', openFormat),
      (''docsFormat'', docsFormat), (''directDownload'', directDownload),
      (''editFormat'', editFormat)]"

definition isValidGoogleDriveUrl :: "string \<Rightarrow> bool" where
  "isValidGoogleDriveUrl url =
     (if url = [] then False
      else list_ex (\<lambda>pattern. re_test pattern url) (map snd GOOGLE_DRIVE_PATTERNS))"

text \<open>
  \<open>match && match[1]\<close> holds when the pattern matched and group 1 captured a non-empty
  string; otherwise the loop goes on to the next pattern.
\<close>

definition group1 :: "regex \<Rightarrow> string \<Rightarrow> string option" where
  "group1 pattern s =
     (case re_exec pattern s of
        Some (Some g) \<Rightarrow> if g = [] then None else Some g
      | _ \<Rightarrow> None)"

definition parseGoogleDriveUrl :: "string \<Rightarrow> string option" where
  "parseGoogleDriveUrl url =
     (if url = [] then None
      else first_some (\<lambda>(formatName, pattern). group1 pattern url) GOOGLE_DRIVE_PATTERNS)"

definition isValidFileId :: "string \<Rightarrow> bool" where
  \<comment> \<open>\<open>/^[a-zA-Z0-9_-]{25,50}$/\<close>\<close>
  "isValidFileId fileId =
     (if fileId = [] then False
      else re_test_anchored (Seq (Rep is_id_char 25 (Some 50)) Eol) fileId)"

datatype js_error = Error string

definition generateDownloadUrl :: "string \<Rightarrow> js_error + string" where
  "generateDownloadUrl fileId =
     (if \<not> isValidFileId fileId then Inl (Error ''Invalid file ID provided'')
      else Inr (''https://drive.google.com/uc?export=download&id='' @ fileId))"

definition generateConfirmationUrl :: "string \<Rightarrow> string \<Rightarrow> js_error + string" where
  "generateConfirmationUrl fileId confirmToken =
     (if \<not> isValidFileId fileId then Inl (Error ''Invalid file ID provided'')
      else Inr (''https://drive.google.com/uc?export=download&confirm='' @ confirmToken
                @ ''&id='' @ fileId))"

definition getUrlFormat :: "string \<Rightarrow> string option" where
  "getUrlFormat url =
     (if url = [] then None
      else first_some (\<lambda>(formatName, pattern). if re_test pattern url then Some formatName else None)
             GOOGLE_DRIVE_PATTERNS)"

definition normalizeGoogleDriveUrl :: "string \<Rightarrow> string option" where
  "normalizeGoogleDriveUrl url =
     (case parseGoogleDriveUrl url of
        None \<Rightarrow> None
      | Some fileId \<Rightarrow>
          if fileId = [] then None
          else Some (''https://drive.google.com/file/d/'' @ fileId @ ''/view?usp=sharing''))"

record url_info =
  originalUrl :: string
  fileId :: string
  format :: "string option"
  downloadUrl :: string
  sharingUrl :: "string option"
  isValidFileId_field :: bool

text \<open>
  \<open>analyzeGoogleDriveUrl\<close> returns \<open>null\<close> (\<open>Inr None\<close>), an object, or throws what
  \<open>generateDownloadUrl\<close> throws while the object literal is evaluated (\<open>Inl\<close>).
\<close>

definition analyzeGoogleDriveUrl :: "string \<Rightarrow> js_error + url_info option" where
  "analyzeGoogleDriveUrl url =
     (if \<not> isValidGoogleDriveUrl url then Inr None
      else
        let parsed = parseGoogleDriveUrl url;
            fmt = getUrlFormat url
        in case parsed of
             None \<Rightarrow> Inr None
           | Some fid \<Rightarrow>
               if fid = [] then Inr None
               else (case generateDownloadUrl fid of
                       Inl e \<Rightarrow> Inl e
                     | Inr dl \<Rightarrow>
                         Inr (Some \<lparr> originalUrl = url, fileId = fid, format = fmt,
                                     downloadUrl = dl,
                                     sharingUrl = normalizeGoogleDriveUrl url,
                                     isValidFileId_field = isValidFileId fid \<rparr>)))"

definition confirmation_patterns :: "regex list" where
  \<open>confirmation_patterns =
     [seqs [Str ''confirm='', Group (Plus is_id_char)],
      seqs [Str ''name="confirm"'', Plus is_space, Str ''value="'', Group (Plus not_dquote),
            Str ''"''],
      seqs [Str ''&confirm='', Group (Plus is_id_char)],
      seqs [Str ''"confirm":"'', Group (Plus not_dquote), Str ''"'']]\<close>

definition extractConfirmationToken :: "string \<Rightarrow> string option" where
  "extractConfirmationToken htmlContent =
     (if htmlContent = [] then None
      else first_some (\<lambda>pattern. group1 pattern htmlContent) confirmation_patterns)"

text \<open>
  The occurrences of the confirmation patterns in a page: the pairs of the index of a
  pattern in the list and a position of the page where an attempt of that pattern
  succeeds.
\<close>

definition occurs_at :: "regex \<Rightarrow> string \<Rightarrow> nat \<Rightarrow> bool" where
  "occurs_at r s i = (re_match_here r (drop i s) \<noteq> None)"

definition token_occurrences :: "string \<Rightarrow> (nat \<times> nat) list" where
  "token_occurrences html =
     [(j, i). j \<leftarrow> [0 ..< length confirmation_patterns], i \<leftarrow> [0 ..< Suc (length html)],
              occurs_at (confirmation_patterns ! j) html i]"

section \<open>config/index.js\<close>

text \<open>
  The getters of the class \<open>Config\<close>. A number of the configuration is what
  \<open>Number(value)\<close> returns and \<open>getEnvVar\<close> lets through, a double that is not \<open>NaN\<close>; once
  \<open>validate\<close> has passed it is finite, and the model takes the real number it denotes.
  The product \<open>MAX_FILE_SIZE_MB * 1024 * 1024\<close> scales by a power of two, which is
  exact on doubles in the range \<open>validate\<close> accepts. \<open>validate\<close> returns the error it
  throws, if any.
\<close>

record config =
  MAX_FILE_SIZE_MB :: real
  DOWNLOAD_TIMEOUT_MS :: real
  BOT_TOKEN :: string
  TEMP_DIR :: string

definition MAX_FILE_SIZE_BYTES :: "config \<Rightarrow> real" where
  "MAX_FILE_SIZE_BYTES cfg = MAX_FILE_SIZE_MB cfg * 1024 * 1024"




definition SUPPORTED_VIDEO_TYPES :: "string list" where
  "SUPPORTED_VIDEO_TYPES =
     [''video/mp4'', ''video/mpeg'', ''video/quicktime'', ''video/x-msvideo'',
      ''video/x-ms-wmv'', ''video/x-matroska'', ''video/webm'']"

definition SUPPORTED_IMAGE_TYPES :: "string list" where
  "SUPPORTED_IMAGE_TYPES =
     [''image/jpeg'', ''image/png'', ''image/gif'', ''image/webp'', ''image/bmp'', ''image/tiff'']"

section \<open>Library functions\<close>

text \<open>
  The functions of the packages \<open>file-type\<close> and \<open>mime\<close> and of the module \<open>path\<close> are
  parameters of the model. A call that can throw returns a sum, \<open>Inl\<close> carrying the
  message of the error. \<open>fs.pathExists\<close> asks the file system, which other processes,
  the timers of the program and its own pending operations change: its answer is
  given by the world \<open>'w\<close>, as the answers of the network are.
\<close>

record detected_type =
  ext :: string
  mime :: string

record 'w libs =
  fileTypeFromFile :: "string \<Rightarrow> string + detected_type option"
  fileTypeFromBuffer :: "string \<Rightarrow> string + detected_type option"
  mime_getType :: "string \<Rightarrow> string option"
  fs_pathExists :: "string \<Rightarrow> 'w \<Rightarrow> bool \<times> 'w"
  path_join :: "string \<Rightarrow> string \<Rightarrow> string"
  path_extname :: "string \<Rightarrow> string"
  path_basename :: "string \<Rightarrow> string \<Rightarrow> string"
  decodeURIComponent :: "string \<Rightarrow> string option"





definition to_lower :: "char \<Rightarrow> char" where
  \<comment> \<open>the lower-case mapping of the code units below 256\<close>
  "to_lower c =
     (if (CHR ''A'' \<le> c \<and> c \<le> CHR ''Z'') \<or> (CHR 0xC0 \<le> c \<and> c \<le> CHR 0xDE \<and> c \<noteq> CHR 0xD7)
      then char_of (of_char c + (32 :: nat)) else c)"

definition toLowerCase :: "string \<Rightarrow> string" where
  "toLowerCase s = map to_lower s"

definition startsWith :: "string \<Rightarrow> string \<Rightarrow> bool" where
  "startsWith s pre = (take (length pre) s = pre)"

definition endsWith :: "string \<Rightarrow> string \<Rightarrow> bool" where
  "endsWith s suf = (length suf \<le> length s \<and> drop (length s - length suf) s = suf)"

fun str_includes :: "string \<Rightarrow> string \<Rightarrow> bool" where
  "str_includes [] sub = (sub = [])"
| "str_includes (c # cs) sub = (strip_prefix sub (c # cs) \<noteq> None \<or> str_includes cs sub)"

section \<open>utils/file-handler.js\<close>

record file_type = detected_type +
  detection_method :: string
  confidence :: string
  error_message :: "string option"


record send_options =
  supports_streaming :: "bool option"
  parse_mode :: string

record send_choice =
  send_method :: string
  reason :: string
  options :: send_options

definition mime_or_default :: "file_type option \<Rightarrow> string" where
  \<comment> \<open>\<open>fileType?.mime || 'application/octet-stream'\<close>\<close>
  "mime_or_default fileType =
     (case fileType of
        None \<Rightarrow> ''application/octet-stream''
      | Some ft \<Rightarrow> if mime ft = [] then ''application/octet-stream'' else mime ft)"

definition determineSendMethod :: "file_type option \<Rightarrow> string \<Rightarrow> send_choice" where
  "determineSendMethod fileType name =
     (let mimeType = mime_or_default fileType
      in if mimeType \<in> set SUPPORTED_VIDEO_TYPES
         then \<lparr> send_method = ''sendVideo'', reason = ''Video file detected'',
                options = \<lparr> supports_streaming = Some True, parse_mode = ''Markdown'' \<rparr> \<rparr>
         else if mimeType \<in> set SUPPORTED_IMAGE_TYPES
         then \<lparr> send_method = ''sendPhoto'', reason = ''Image file detected'',
                options = \<lparr> supports_streaming = None, parse_mode = ''Markdown'' \<rparr> \<rparr>
         else if startsWith mimeType ''audio/''
         then \<lparr> send_method = ''sendAudio'', reason = ''Audio file detected'',
                options = \<lparr> supports_streaming = None, parse_mode = ''Markdown'' \<rparr> \<rparr>
         else if mimeType = ''image/gif'' \<or> endsWith (toLowerCase name) ''.gif''
         then \<lparr> send_method = ''sendAnimation'', reason = ''Animation/GIF file detected'',
                options = \<lparr> supports_streaming = None, parse_mode = ''Markdown'' \<rparr> \<rparr>
         else \<lparr> send_method = ''sendDocument'', reason = ''Document or unknown file type'',
                options = \<lparr> supports_streaming = None, parse_mode = ''Markdown'' \<rparr> \<rparr>)"

section \<open>utils/error-handler.js: retryOperation\<close>

text \<open>
  The operation is a state transformer: an invocation in state \<open>s\<close> returns
  \<open>Inr\<close> of its value or \<open>Inl\<close> of what it throws, and the next state. The wrapper
  returns its own outcome, the final state and the delays it waited, in order.
  \<open>throw lastError\<close> after a loop that never ran throws \<open>undefined\<close>.
\<close>

record 'e retry_options =
  maxRetries :: "nat option"
  baseDelay :: "nat option"
  maxDelay :: "nat option"
  retryCondition :: "('e \<Rightarrow> bool) option"

datatype 'e thrown = Thrown 'e | ThrownUndefined

function retryOperation_loop ::
  "('s \<Rightarrow> ('e + 'a) \<times> 's) \<Rightarrow> nat \<Rightarrow> nat \<Rightarrow> nat \<Rightarrow> ('e \<Rightarrow> bool) \<Rightarrow>
   nat \<Rightarrow> 'e option \<Rightarrow> 's \<Rightarrow> nat list \<Rightarrow> ('e thrown + 'a) \<times> 's \<times> nat list"
where
  "retryOperation_loop operation maxR baseD maxD cond attempt lastError s waited =
     (if attempt \<le> maxR then
        (case operation s of
           (Inr v, s') \<Rightarrow> (Inr v, s', waited)
         | (Inl err, s') \<Rightarrow>
             if \<not> cond err \<or> attempt = maxR then (Inl (Thrown err), s', waited)
             else
               let delay = min (baseD * 2 ^ (attempt - 1)) maxD
               in retryOperation_loop operation maxR baseD maxD cond (Suc attempt) (Some err) s'
                    (waited @ [delay]))
      else (Inl (case lastError of None \<Rightarrow> ThrownUndefined | Some err \<Rightarrow> Thrown err), s, waited))"
  by pat_completeness auto
termination
  by (relation "measure (\<lambda>(operation, maxR, baseD, maxD, cond, attempt, lastError, s, waited).
        Suc maxR - attempt)") auto

declare retryOperation_loop.simps [simp del]

text \<open>The defaults of the destructured options.\<close>

definition max_retries_of :: "'e retry_options \<Rightarrow> nat" where
  "max_retries_of opts = (case maxRetries opts of None \<Rightarrow> 3 | Some n \<Rightarrow> n)"

definition retry_condition_of :: "'e retry_options \<Rightarrow> 'e \<Rightarrow> bool" where
  "retry_condition_of opts = (case retryCondition opts of None \<Rightarrow> (\<lambda>_. True) | Some c \<Rightarrow> c)"

definition retryOperation ::
  "('s \<Rightarrow> ('e + 'a) \<times> 's) \<Rightarrow> 'e retry_options \<Rightarrow> 's \<Rightarrow> ('e thrown + 'a) \<times> 's \<times> nat list"
where
  "retryOperation operation opts s =
     retryOperation_loop operation
       (max_retries_of opts)
       (case baseDelay opts of None \<Rightarrow> 1000 | Some d \<Rightarrow> d)
       (case maxDelay opts of None \<Rightarrow> 10000 | Some d \<Rightarrow> d)
       (retry_condition_of opts)
       1 None s []"

text \<open>
  The operation as seen by a caller that counts its invocations; the state in which
  the invocation number \<open>k + 1\<close> of a run from \<open>s\<close> takes place, and its outcome.
\<close>

definition counting ::
  "('s \<Rightarrow> 'r \<times> 's) \<Rightarrow> nat \<times> 's \<Rightarrow> 'r \<times> (nat \<times> 's)" where
  "counting operation = (\<lambda>(n, s). case operation s of (r, s') \<Rightarrow> (r, (Suc n, s')))"

definition state_before :: "('s \<Rightarrow> 'r \<times> 's) \<Rightarrow> 's \<Rightarrow> nat \<Rightarrow> 's" where
  "state_before operation s k = ((\<lambda>x. snd (operation x)) ^^ k) s"

definition outcome :: "('s \<Rightarrow> 'r \<times> 's) \<Rightarrow> 's \<Rightarrow> nat \<Rightarrow> 'r" where
  "outcome operation s k = fst (operation (state_before operation s k))"

text \<open>Two operations: one that fails twice and then succeeds, one that always fails.\<close>

definition flaky :: "nat \<Rightarrow> (string + string) \<times> nat" where
  "flaky s = (if s < 2 then (Inl ''down'', Suc s) else (Inr ''ok'', Suc s))"

definition broken :: "nat \<Rightarrow> (nat + string) \<times> nat" where
  "broken s = (Inl s, Suc s)"

section \<open>utils/googleDrive.js\<close>

text \<open>
  The network is a parameter: \<open>axios url w\<close> is the outcome of a streaming GET in the
  world \<open>w\<close>, and the next world. A response body is the sequence of the chunks its
  \<open>data\<close> events deliver and the event that ends it. The state of a download holds the
  world, the URLs requested so far, the delays waited so far and the calls made to
  the file system so far, in order.

  The calls to the file system are recorded, not carried out: \<open>fs.createWriteStream\<close>
  opens its file asynchronously, the writes of a stream are queued behind the open,
  and \<open>fs.unlink(filePath).catch(() => {})\<close> is neither awaited nor checked, so the
  program does not fix the order in which the disk sees them, nor learns whether the
  removal succeeded. \<open>fs.ensureDir\<close> is taken to succeed and the write stream to emit
  no \<open>error\<close> event.
\<close>

datatype transport_error = Timeout | ConnectionRefused | HttpStatus nat | OtherNetworkError string

datatype stream_end = End | StreamError transport_error

record response_stream =
  chunks :: "string list"
  ending :: stream_end

record http_response =
  headers :: "string \<rightharpoonup> string"
  data :: response_stream

datatype http_result = Rejected transport_error | Resolved http_response

datatype download_error =
    UrlError js_error
  | DeclaredSizeExceedsLimit int
  | StreamedSizeExceedsLimit
  | CouldNotExtractToken
  | VirusScanPageFailed download_error
  | TransportFailure transport_error
  | AllAttemptsFailed

record download_result =
  filePath :: string
  fileName :: string
  fileSize :: nat
  contentType :: string

record download_options =
  dl_maxRetries :: "nat option"

datatype fs_call =
    EnsureDir string
  | CreateWriteStream string
  | WriteChunk string string
  | EndWriteStream string
  | DestroyWriteStream string
  | Unlink string

record 'w dl_state =
  world :: 'w
  requests :: "string list"
  sleeps :: "nat list"
  fs_calls :: "fs_call list"

type_synonym 'w attempt =
  "string \<Rightarrow> string \<Rightarrow> download_options \<Rightarrow> 'w dl_state \<Rightarrow>
   ((download_error + download_result) \<times> 'w dl_state) option"

definition digit_value :: "char \<Rightarrow> nat" where
  "digit_value c =
     (if CHR ''0'' \<le> c \<and> c \<le> CHR ''9'' then of_char c - 48
      else if CHR ''a'' \<le> c \<and> c \<le> CHR ''z'' then of_char c - 87
      else if CHR ''A'' \<le> c \<and> c \<le> CHR ''Z'' then of_char c - 55
      else 36)"

text \<open>
  \<open>parseInt\<close> with no radix; \<open>None\<close> is \<open>NaN\<close>. The value is the exact integer: the
  only use made of it is a comparison with a bound below \<open>2^53\<close>, which rounding to a
  double does not change.
\<close>

definition parseInt :: "string \<Rightarrow> int option" where
  "parseInt str =
     (let s0 = dropWhile is_space str;
          negative = (s0 \<noteq> [] \<and> hd s0 = CHR ''-'');
          s1 = (if s0 \<noteq> [] \<and> (hd s0 = CHR ''-'' \<or> hd s0 = CHR ''+'') then tl s0 else s0);
          hex = (take 2 s1 = ''0x'' \<or> take 2 s1 = ''0X'');
          radix = (if hex then 16 else 10);
          s2 = (if hex then drop 2 s1 else s1);
          digits = takeWhile (\<lambda>c. digit_value c < radix) s2;
          magnitude = foldl (\<lambda>acc c. acc * radix + digit_value c) 0 digits
      in if digits = [] then None
         else Some (if negative then - int magnitude else int magnitude))"

definition filenamePatterns :: "regex list" where
  "filenamePatterns =
     [seqs [StrI (''filename*=UTF-8'' @ [CHR 0x27, CHR 0x27]), Group (Plus (\<lambda>c. c \<noteq> CHR '';''))],
      seqs [StrI (''filename='' @ [CHR 0x22]), Group (Plus not_dquote), Str [CHR 0x22]],
      seqs [StrI ''filename='', Group (Plus (\<lambda>c. c \<noteq> CHR '';''))]]"

definition extractFileName :: "'w libs \<Rightarrow> (string \<rightharpoonup> string) \<Rightarrow> string option" where
  "extractFileName lib hdrs =
     (case hdrs ''content-disposition'' of
        None \<Rightarrow> None
      | Some contentDisposition \<Rightarrow>
          if contentDisposition = [] then None
          else first_some (\<lambda>pattern.
                 case group1 pattern contentDisposition of
                   None \<Rightarrow> None
                 | Some g \<Rightarrow>
                     let unquoted = filter (\<lambda>c. c \<noteq> CHR 0x27 \<and> c \<noteq> CHR 0x22) g
                     in Some (case decodeURIComponent lib unquoted of
                                Some decoded \<Rightarrow> decoded
                              | None \<Rightarrow> unquoted))
               filenamePatterns)"

fun show_nat :: "nat \<Rightarrow> string" where
  "show_nat n =
     (if n < 10 then [char_of (48 + n)] else show_nat (n div 10) @ [char_of (48 + n mod 10)])"

text \<open>
  The \<open>while\<close> loop of \<open>generateUniqueFilePath\<close> runs until \<open>fs.pathExists\<close> answers
  that the path does not exist; \<open>None\<close> is a loop that never ends.
\<close>

partial_function (option) uniquePathLoop ::
  "'w libs \<Rightarrow> config \<Rightarrow> string \<Rightarrow> string \<Rightarrow> nat \<Rightarrow> 'w \<Rightarrow> (string \<times> 'w) option"
where
  "uniquePathLoop lib cfg cleanFileName path counter w =
     (let answer = fs_pathExists lib path w
      in if fst answer then
           (let extension = path_extname lib cleanFileName;
                name = path_basename lib cleanFileName extension;
                newFileName = name @ ''_'' @ show_nat counter @ extension
            in uniquePathLoop lib cfg cleanFileName
                 (path_join lib (TEMP_DIR cfg) newFileName) (Suc counter) (snd answer))
         else Some (path, snd answer))"

declare uniquePathLoop.simps [code]

definition generateUniqueFilePath ::
  "'w libs \<Rightarrow> config \<Rightarrow> string \<Rightarrow> 'w dl_state \<Rightarrow> (string \<times> 'w dl_state) option" where
  "generateUniqueFilePath lib cfg name st =
     (let st1 = st\<lparr>fs_calls := fs_calls st @ [EnsureDir (TEMP_DIR cfg)]\<rparr>;
          cleanFileName =
            map (\<lambda>c. if c \<in> {CHR ''<'', CHR ''>'', CHR '':'', CHR 0x22, CHR ''/'', CHR 0x5C,
                               CHR ''|'', CHR ''?'', CHR ''*''} then CHR ''_'' else c) name
      in case uniquePathLoop lib cfg cleanFileName (path_join lib (TEMP_DIR cfg) cleanFileName) 1
                (world st1) of
           None \<Rightarrow> None
         | Some (path, w') \<Rightarrow> Some (path, st1\<lparr>world := w'\<rparr>))"

text \<open>
  \<open>streamToFile\<close>: the listeners run on the events of the response stream in order.
  On a chunk, the counting listener (registered first) runs before the one that
  \<open>pipe\<close> registered, which hands the chunk to the write stream; a destroyed write
  stream takes nothing. When the response ends, the listener ends the write stream,
  as \<open>pipe\<close> does after it. A promise is settled by the first \<open>resolve\<close> or
  \<open>reject\<close> only. The function returns the settlement of the promise and the calls
  made.
\<close>

record write_state =
  received :: nat
  settled :: "(download_error + nat) option"
  destroyed :: bool

definition settle :: "download_error + nat \<Rightarrow> write_state \<Rightarrow> write_state" where
  "settle r ws = (case settled ws of None \<Rightarrow> ws\<lparr>settled := Some r\<rparr> | Some _ \<Rightarrow> ws)"

definition on_data ::
  "config \<Rightarrow> string \<Rightarrow> write_state \<times> fs_call list \<Rightarrow> string \<Rightarrow> write_state \<times> fs_call list"
where
  "on_data cfg path = (\<lambda>(ws, calls) chunk.
     let ws1 = ws\<lparr>received := received ws + length chunk\<rparr>
     in if real (received ws1) > MAX_FILE_SIZE_BYTES cfg
        then (settle (Inl StreamedSizeExceedsLimit) (ws1\<lparr>destroyed := True\<rparr>),
              calls @ [DestroyWriteStream path, Unlink path])
        else (ws1, if destroyed ws1 then calls else calls @ [WriteChunk path chunk]))"

definition streamToFile ::
  "config \<Rightarrow> response_stream \<Rightarrow> string \<Rightarrow> fs_call list \<Rightarrow>
   (download_error + nat) \<times> fs_call list" where
  "streamToFile cfg stream path calls =
     (let start = (\<lparr> received = 0, settled = None, destroyed = False \<rparr>,
                   calls @ [CreateWriteStream path]);
          (ws, calls1) = foldl (on_data cfg path) start (chunks stream)
      in case ending stream of
           End \<Rightarrow>
             ((case settled ws of Some r \<Rightarrow> r | None \<Rightarrow> Inr (received ws)),
              calls1 @ [EndWriteStream path])
         | StreamError e \<Rightarrow>
             ((case settled ws of Some r \<Rightarrow> r | None \<Rightarrow> Inl (TransportFailure e)),
              calls1 @ [DestroyWriteStream path, Unlink path]))"

definition streamToString :: "response_stream \<Rightarrow> download_error + string" where
  "streamToString stream =
     (case ending stream of
        End \<Rightarrow> Inr (concat (chunks stream))
      | StreamError e \<Rightarrow> Inl (TransportFailure e))"

text \<open>
  \<open>attemptDownload\<close> and \<open>handleVirusScanPage\<close> call each other. The argument
  \<open>self\<close> stands for \<open>attemptDownload\<close> in the body of \<open>handleVirusScanPage\<close>; the knot is
  tied below by \<open>attemptDownload\<close>, indexed by the number of confirmation pages that
  may be nested. \<open>None\<close> is a call that does not return within that depth.
\<close>

definition handleVirusScanPage ::
  "'w attempt \<Rightarrow> http_response \<Rightarrow> string \<Rightarrow> download_options \<Rightarrow> 'w dl_state \<Rightarrow>
   ((download_error + download_result) \<times> 'w dl_state) option" where
  "handleVirusScanPage self response fid opts st =
     (case streamToString (data response) of
        Inl e \<Rightarrow> Some (Inl (VirusScanPageFailed e), st)
      | Inr htmlContent \<Rightarrow>
          (case extractConfirmationToken htmlContent of
             None \<Rightarrow> Some (Inl (VirusScanPageFailed CouldNotExtractToken), st)
           | Some confirmToken \<Rightarrow>
               (case generateConfirmationUrl fid confirmToken of
                  Inl e \<Rightarrow> Some (Inl (VirusScanPageFailed (UrlError e)), st)
                | Inr confirmUrl \<Rightarrow>
                    (case self confirmUrl fid (opts\<lparr>dl_maxRetries := Some 1\<rparr>) st of
                       None \<Rightarrow> None
                     | Some (Inl e, st') \<Rightarrow> Some (Inl (VirusScanPageFailed e), st')
                     | Some (Inr result, st') \<Rightarrow> Some (Inr result, st')))))"

definition is_html :: "http_response \<Rightarrow> bool" where
  \<comment> \<open>\<open>response.headers['content-type']?.includes('text/html')\<close>\<close>
  "is_html response =
     (case headers response ''content-type'' of
        None \<Rightarrow> False
      | Some ct \<Rightarrow> str_includes ct ''text/html'')"

definition declared_length :: "http_response \<Rightarrow> int option" where
  \<comment> \<open>\<open>parseInt(response.headers['content-length'] || '0')\<close>\<close>
  "declared_length response =
     parseInt (case headers response ''content-length'' of
                 None \<Rightarrow> ''0''
               | Some v \<Rightarrow> if v = [] then ''0'' else v)"

definition file_name_for :: "'w libs \<Rightarrow> http_response \<Rightarrow> string \<Rightarrow> string" where
  \<comment> \<open>\<open>extractFileName(response.headers) || `file_${fileId}.bin`\<close>\<close>
  "file_name_for lib response fid =
     (case extractFileName lib (headers response) of
        None \<Rightarrow> ''file_'' @ fid @ ''.bin''
      | Some n \<Rightarrow> if n = [] then ''file_'' @ fid @ ''.bin'' else n)"

text \<open>The body of the \<open>try\<close> block: one attempt.\<close>

definition attemptDownload_try ::
  "'w attempt \<Rightarrow> (string \<Rightarrow> 'w \<Rightarrow> http_result \<times> 'w) \<Rightarrow> 'w libs \<Rightarrow> config \<Rightarrow>
   string \<Rightarrow> string \<Rightarrow> download_options \<Rightarrow> 'w dl_state \<Rightarrow>
   ((download_error + download_result) \<times> 'w dl_state) option" where
  "attemptDownload_try self axios lib cfg url fid opts st =
     (case axios url (world st) of (res, w') \<Rightarrow>
        let st1 = st\<lparr>world := w', requests := requests st @ [url]\<rparr>
        in case res of
             Rejected e \<Rightarrow> Some (Inl (TransportFailure e), st1)
           | Resolved response \<Rightarrow>
               if is_html response then handleVirusScanPage self response fid opts st1
               else
                 let contentLength = declared_length response
                 in if (case contentLength of
                          None \<Rightarrow> False
                        | Some n \<Rightarrow> real_of_int n > MAX_FILE_SIZE_BYTES cfg)
                    then Some (Inl (DeclaredSizeExceedsLimit (the contentLength)), st1)
                    else
                      let name = file_name_for lib response fid
                      in case generateUniqueFilePath lib cfg name st1 of
                           None \<Rightarrow> None
                         | Some (path, st2) \<Rightarrow>
                             (case streamToFile cfg (data response) path (fs_calls st2) of
                                (Inl e, calls) \<Rightarrow> Some (Inl e, st2\<lparr>fs_calls := calls\<rparr>)
                              | (Inr nbytes, calls) \<Rightarrow>
                                  Some (Inr \<lparr> filePath = path, fileName = name, fileSize = nbytes,
                                              contentType =
                                                (case headers response ''content-type'' of
                                                   None \<Rightarrow> ''application/octet-stream''
                                                 | Some ct \<Rightarrow>
                                                     if ct = [] then ''application/octet-stream''
                                                     else ct) \<rparr>,
                                        st2\<lparr>fs_calls := calls\<rparr>)))"

definition max_attempts_of :: "download_options \<Rightarrow> nat" where
  \<comment> \<open>\<open>options.maxRetries || 3\<close>\<close>
  "max_attempts_of opts = (case dl_maxRetries opts of None \<Rightarrow> 3 | Some n \<Rightarrow> if n = 0 then 3 else n)"

definition backoff :: "nat \<Rightarrow> nat" where
  \<comment> \<open>\<open>Math.min(1000 * Math.pow(2, attempt - 1), 5000)\<close>\<close>
  "backoff attempt = min (1000 * 2 ^ (attempt - 1)) 5000"

text \<open>
  The \<open>for\<close> loop: \<open>attempt\<close> runs from 1 to \<open>maxR\<close>; a failed attempt that is not the
  last one is followed by a delay of \<open>backoff attempt\<close> milliseconds.
\<close>

function attemptDownload_loop ::
  "'w attempt \<Rightarrow> (string \<Rightarrow> 'w \<Rightarrow> http_result \<times> 'w) \<Rightarrow> 'w libs \<Rightarrow> config \<Rightarrow>
   string \<Rightarrow> string \<Rightarrow> download_options \<Rightarrow> nat \<Rightarrow> nat \<Rightarrow> download_error option \<Rightarrow>
   'w dl_state \<Rightarrow> ((download_error + download_result) \<times> 'w dl_state) option" where
  "attemptDownload_loop self axios lib cfg url fid opts maxR attempt lastError st =
     (if attempt \<le> maxR then
        (case attemptDownload_try self axios lib cfg url fid opts st of
           None \<Rightarrow> None
         | Some (Inr result, st') \<Rightarrow> Some (Inr result, st')
         | Some (Inl err, st') \<Rightarrow>
             attemptDownload_loop self axios lib cfg url fid opts maxR (Suc attempt) (Some err)
               (if attempt < maxR
                then st'\<lparr>sleeps := sleeps st' @ [backoff attempt]\<rparr>
                else st'))
      else Some (Inl (case lastError of Some err \<Rightarrow> err | None \<Rightarrow> AllAttemptsFailed), st))"
  by pat_completeness auto
termination
  by (relation "measure (\<lambda>(self, axios, lib, cfg, url, fid, opts, maxR, attempt, lastError, st).
        Suc maxR - attempt)") auto

declare attemptDownload_loop.simps [simp del]

definition attemptDownload_with ::
  "'w attempt \<Rightarrow> (string \<Rightarrow> 'w \<Rightarrow> http_result \<times> 'w) \<Rightarrow> 'w libs \<Rightarrow> config \<Rightarrow> 'w attempt" where
  "attemptDownload_with self axios lib cfg url fid opts st =
     attemptDownload_loop self axios lib cfg url fid opts (max_attempts_of opts) 1 None st"

primrec attemptDownload ::
  "nat \<Rightarrow> (string \<Rightarrow> 'w \<Rightarrow> http_result \<times> 'w) \<Rightarrow> 'w libs \<Rightarrow> config \<Rightarrow> 'w attempt" where
  "attemptDownload 0 axios lib cfg = attemptDownload_with (\<lambda>_ _ _ _. None) axios lib cfg"
| "attemptDownload (Suc depth) axios lib cfg =
     attemptDownload_with (attemptDownload depth axios lib cfg) axios lib cfg"

text \<open>
  \<open>downloadGoogleDriveFile\<close> never throws: it returns the result of the download, or
  the failure object made from the error (\<open>Inl\<close>).
\<close>

definition downloadGoogleDriveFile ::
  "nat \<Rightarrow> (string \<Rightarrow> 'w \<Rightarrow> http_result \<times> 'w) \<Rightarrow> 'w libs \<Rightarrow> config \<Rightarrow>
   string \<Rightarrow> download_options \<Rightarrow> 'w dl_state \<Rightarrow>
   ((download_error + download_result) \<times> 'w dl_state) option" where
  "downloadGoogleDriveFile depth axios lib cfg fid opts st =
     (if fid = [] then Some (Inl (UrlError (Error ''Invalid file ID provided'')), st)
      else case generateDownloadUrl fid of
             Inl e \<Rightarrow> Some (Inl (UrlError e), st)
           | Inr url \<Rightarrow> attemptDownload depth axios lib cfg url fid opts st)"

text \<open>
  The responses that make an attempt fail before any call to the file system and
  before any further request, with the error of the attempt: a rejected request, a response
  that is not HTML and declares a length above the limit, a confirmation page whose
  stream fails or that holds no token.
\<close>

definition fails_directly :: "config \<Rightarrow> http_result \<Rightarrow> download_error option" where
  "fails_directly cfg res =
     (case res of
        Rejected e \<Rightarrow> Some (TransportFailure e)
      | Resolved response \<Rightarrow>
          if is_html response then
            (case streamToString (data response) of
               Inl e \<Rightarrow> Some (VirusScanPageFailed e)
             | Inr htmlContent \<Rightarrow>
                 (case extractConfirmationToken htmlContent of
                    None \<Rightarrow> Some (VirusScanPageFailed CouldNotExtractToken)
                  | Some _ \<Rightarrow> None))
          else
            (case declared_length response of
               None \<Rightarrow> None
             | Some n \<Rightarrow>
                 if real_of_int n > MAX_FILE_SIZE_BYTES cfg then Some (DeclaredSizeExceedsLimit n)
                 else None))"

section \<open>A scripted network\<close>

text \<open>
  A network that answers the requests with a given list of outcomes, in order, and
  with a timeout once the list is used up; a temporary directory in which no path
  exists when the program asks; and library functions for file names that have no
  directory part and no extension.
\<close>

definition scripted_axios :: "string \<Rightarrow> http_result list \<Rightarrow> http_result \<times> http_result list" where
  "scripted_axios url script =
     (case script of [] \<Rightarrow> (Rejected Timeout, []) | r # rest \<Rightarrow> (r, rest))"

definition plain_libs :: "http_result list libs" where
  "plain_libs =
     \<lparr> fileTypeFromFile = (\<lambda>_. Inr None), fileTypeFromBuffer = (\<lambda>_. Inr None),
       mime_getType = (\<lambda>_. None), fs_pathExists = (\<lambda>_ w. (False, w)),
       path_join = (\<lambda>dir name. dir @ ''/'' @ name), path_extname = (\<lambda>_. []),
       path_basename = (\<lambda>name _. name), decodeURIComponent = Some \<rparr>"

definition default_config :: config where
  "default_config =
     \<lparr> MAX_FILE_SIZE_MB = 50, DOWNLOAD_TIMEOUT_MS = 30000,
       BOT_TOKEN = ''123456789:ABCDEFGHIJKLMNOPQRSTUVWXYZabcdefghi'',
       TEMP_DIR = ''/tmp/gdrive'' \<rparr>"

definition start_state :: "'w \<Rightarrow> 'w dl_state" where
  "start_state w = \<lparr> world = w, requests = [], sleeps = [], fs_calls = [] \<rparr>"

definition html_page :: "string \<Rightarrow> http_response" where
  "html_page body =
     \<lparr> headers = [''content-type'' \<mapsto> ''text/html; charset=utf-8''],
       data = \<lparr> chunks = [body], ending = End \<rparr> \<rparr>"

definition file_response :: "string \<Rightarrow> string list \<Rightarrow> http_response" where
  "file_response len body =
     \<lparr> headers = [''content-type'' \<mapsto> ''application/pdf'', ''content-length'' \<mapsto> len],
       data = \<lparr> chunks = body, ending = End \<rparr> \<rparr>"

section \<open>Notions used in the statements below\<close>






definition is_html_result :: "http_result \<Rightarrow> bool" where
  "is_html_result res = (case res of Rejected _ \<Rightarrow> False | Resolved response \<Rightarrow> is_html response)"

text \<open>
  A run of the retry loop, attempt by attempt: the state in which the attempt number
  \<open>k + 1\<close> begins, which is the state that the attempt number \<open>k\<close> left with the delay
  waited after it, and what the attempt number \<open>k + 1\<close> returns or throws.
\<close>

primrec state_before_attempt ::
  "('w dl_state \<Rightarrow> ((download_error + download_result) \<times> 'w dl_state) option) \<Rightarrow>
   'w dl_state \<Rightarrow> nat \<Rightarrow> 'w dl_state" where
  "state_before_attempt attempt st 0 = st"
| "state_before_attempt attempt st (Suc k) =
     (case attempt (state_before_attempt attempt st k) of
        None \<Rightarrow> state_before_attempt attempt st k
      | Some (r, st') \<Rightarrow> st'\<lparr>sleeps := sleeps st' @ [backoff (Suc k)]\<rparr>)"

definition attempt_outcome ::
  "('w dl_state \<Rightarrow> ((download_error + download_result) \<times> 'w dl_state) option) \<Rightarrow>
   'w dl_state \<Rightarrow> nat \<Rightarrow> (download_error + download_result) option" where
  "attempt_outcome attempt st k = map_option fst (attempt (state_before_attempt attempt st k))"

definition attempt_fails ::
  "('w dl_state \<Rightarrow> ((download_error + download_result) \<times> 'w dl_state) option) \<Rightarrow>
   'w dl_state \<Rightarrow> nat \<Rightarrow> bool" where
  "attempt_fails attempt st k =
     (case attempt_outcome attempt st k of Some (Inl e) \<Rightarrow> True | _ \<Rightarrow> False)"

text \<open>
  The \<open>attemptDownload\<close> that the body of \<open>attemptDownload depth\<close> calls, and the URLs
  that \<open>generateConfirmationUrl\<close> makes for a file identifier.
\<close>

definition nested_attemptDownload ::
  "nat \<Rightarrow> (string \<Rightarrow> 'w \<Rightarrow> http_result \<times> 'w) \<Rightarrow> 'w libs \<Rightarrow> config \<Rightarrow> 'w attempt" where
  "nested_attemptDownload depth axios lib cfg =
     (case depth of 0 \<Rightarrow> (\<lambda>_ _ _ _. None) | Suc d \<Rightarrow> attemptDownload d axios lib cfg)"

definition is_confirmation_url :: "string \<Rightarrow> string \<Rightarrow> bool" where
  "is_confirmation_url fid url \<longleftrightarrow>
     startsWith url ''https://drive.google.com/uc?export=download&confirm='' \<and>
     endsWith url (''&id='' @ fid)"

text \<open>
  An \<open>attemptDownload\<close> that, called with \<open>maxRetries\<close> 1, waits no delay, requests its
  URL first and after it confirmation URLs only.
\<close>

definition quiet :: "'w attempt \<Rightarrow> bool" where
  "quiet self \<longleftrightarrow>
     (\<forall>u fid opts st out st'.
        self u fid (opts\<lparr>dl_maxRetries := Some 1\<rparr>) st = Some (out, st') \<longrightarrow>
          sleeps st' = sleeps st \<and>
          (\<exists>rs. requests st' = requests st @ u # rs \<and> list_all (is_confirmation_url fid) rs))"

section \<open>Examples\<close>

text \<open>Identifiers, URLs, responses and configurations of the examples.\<close>

definition example_id :: string where
  "example_id = ''1BxiMVs0XRA5nFMdKvBdBZjgmUUqptlbs74OgvE2upms''"

definition example_url :: string where
  "example_url = ''https://drive.google.com/uc?export=download&id=1BxiMVs0XRA5nFMdKvBdBZjgmUUqptlbs74OgvE2upms''"

definition example_confirm_url :: string where
  "example_confirm_url = ''https://drive.google.com/uc?export=download&confirm=t0K&id=1BxiMVs0XRA5nFMdKvBdBZjgmUUqptlbs74OgvE2upms''"

definition example_file_name :: string where
  "example_file_name = ''file_1BxiMVs0XRA5nFMdKvBdBZjgmUUqptlbs74OgvE2upms.bin''"

definition example_path :: string where
  "example_path = ''/tmp/gdrive/file_1BxiMVs0XRA5nFMdKvBdBZjgmUUqptlbs74OgvE2upms.bin''"

definition default_options :: download_options where
  "default_options = \<lparr> dl_maxRetries = None \<rparr>"

text \<open>A configuration with a limit of 0.001 MB, 1048.576 bytes.\<close>

definition small_config :: config where
  "small_config = default_config\<lparr>MAX_FILE_SIZE_MB := 1 / 1000\<rparr>"

definition oversized :: http_result where
  "oversized = Resolved (file_response ''60000000'' [])"

definition page_without_token :: http_result where
  "page_without_token = Resolved (html_page ''<html>Quota exceeded</html>'')"

definition token_page :: http_response where
  "token_page = html_page ''<a href=/uc?export=download&confirm=t0K&id=x>''"


text \<open>
  A file that declares 10 bytes and delivers two chunks of 600 bytes, and a file whose
  stream breaks after its first chunk.
\<close>

definition overflowing :: http_response where
  "overflowing = file_response ''10'' [replicate 600 (CHR ''x''), replicate 600 (CHR ''y'')]"

definition broken_stream :: http_response where
  "broken_stream =
     \<lparr> headers = [''content-type'' \<mapsto> ''application/pdf''],
       data = \<lparr> chunks = [''abc''], ending = StreamError ConnectionRefused \<rparr> \<rparr>"




section \<open>The matcher on runs of a character class\<close>

lemma first_some_not_None_iff:
  "first_some f xs \<noteq> None \<longleftrightarrow> (\<exists>x\<in>set xs. f x \<noteq> None)"
  by (induction xs) (auto split: option.splits)

lemma first_some_rev_upt_iff:
  "first_some f (rev [lo ..< Suc m]) \<noteq> None \<longleftrightarrow> (\<exists>n. lo \<le> n \<and> n \<le> m \<and> f n \<noteq> None)"
proof -
  have "first_some f (rev [lo ..< Suc m]) \<noteq> None
        \<longleftrightarrow> (\<exists>n\<in>set (rev [lo ..< Suc m]). f n \<noteq> None)"
    by (rule first_some_not_None_iff)
  also have "\<dots> \<longleftrightarrow> (\<exists>n. lo \<le> n \<and> n \<le> m \<and> f n \<noteq> None)"
    by (auto simp: less_Suc_eq_le)
  finally show ?thesis .
qed

lemma takeWhile_run:
  assumes "\<forall>c\<in>set t. p c" and "post = [] \<or> \<not> p (hd post)"
  shows "takeWhile p (t @ post) = t"
  using assms by (cases post) (auto simp: takeWhile_append2 takeWhile_eq_all_conv)

lemma run_all: "length (takeWhile p s) = length s \<longleftrightarrow> list_all p s"
  by (induction s) auto

text \<open>
  A greedy \<open>+\<close> on a run \<open>t\<close> of the class that ends where the class ends: when the rest
  of the pattern matches after the whole run, that is the match found.
\<close>

lemma rmatch_Plus_greedy:
  assumes "t \<noteq> []" "\<forall>c\<in>set t. p c" "post = [] \<or> \<not> p (hd post)" "k post cap \<noteq> None"
  shows "rmatch (Plus p) (t @ post) cap k = k post cap"
proof -
  have run: "takeWhile p (t @ post) = t" using assms(2,3) by (rule takeWhile_run)
  have "1 \<le> length t" using assms(1) by (cases t) auto
  then show ?thesis using assms(4) by (auto simp add: run)
qed

lemma rmatch_Group_Plus_greedy:
  assumes "t \<noteq> []" "\<forall>c\<in>set t. p c" "post = [] \<or> \<not> p (hd post)" "k post (Some t) \<noteq> None"
  shows "rmatch (Group (Plus p)) (t @ post) cap k = k post (Some t)"
proof -
  have "rmatch (Group (Plus p)) (t @ post) cap k
        = rmatch (Plus p) (t @ post) cap
            (\<lambda>s' _. k s' (Some (take (length (t @ post) - length s') (t @ post))))"
    by (simp only: rmatch.simps)
  also have "\<dots> = k post (Some (take (length (t @ post) - length post) (t @ post)))"
    by (rule rmatch_Plus_greedy) (use assms in auto)
  finally show ?thesis by simp
qed

lemma re_exec_here: "re_match_here r s = Some m \<Longrightarrow> re_exec r s = Some m"
  by (cases s) simp_all

section \<open>Properties of the URL parser\<close>

lemma anchored_rep:
  "re_test_anchored (Seq (Rep p lo (Some hi)) Eol) s
     \<longleftrightarrow> (\<exists>n. lo \<le> n \<and> n \<le> min hi (length (takeWhile p s)) \<and> length s \<le> n)"
proof -
  have "re_test_anchored (Seq (Rep p lo (Some hi)) Eol) s \<longleftrightarrow>
        first_some (\<lambda>n. if drop n s = [] then Some (None :: string option) else None)
          (rev [lo ..< Suc (min hi (length (takeWhile p s)))]) \<noteq> None"
    by (simp only: re_test_anchored_def re_match_here_def rmatch.simps Let_def option.case)
  also have "\<dots> \<longleftrightarrow> (\<exists>n. lo \<le> n \<and> n \<le> min hi (length (takeWhile p s)) \<and>
        (if drop n s = [] then Some (None :: string option) else None) \<noteq> None)"
    by (rule first_some_rev_upt_iff)
  also have "\<dots> \<longleftrightarrow> (\<exists>n. lo \<le> n \<and> n \<le> min hi (length (takeWhile p s)) \<and> length s \<le> n)"
    by (auto split: if_splits)
  finally show ?thesis .
qed

lemma isValidFileId_iff:
  "isValidFileId s \<longleftrightarrow> 25 \<le> length s \<and> length s \<le> 50 \<and> list_all is_id_char s"
proof -
  let ?run = "length (takeWhile is_id_char s)"
  have run_le: "?run \<le> length s" by (rule length_takeWhile_le)
  have "isValidFileId s \<longleftrightarrow> s \<noteq> [] \<and> (\<exists>n. 25 \<le> n \<and> n \<le> min 50 ?run \<and> length s \<le> n)"
    by (simp add: isValidFileId_def anchored_rep)
  also have "\<dots> \<longleftrightarrow> 25 \<le> length s \<and> length s \<le> 50 \<and> ?run = length s"
    using run_le by auto
  finally show ?thesis by (simp add: run_all)
qed

text \<open>
  C9. \<open>isValidFileId\<close> returns false for every string shorter than 25 or longer than 50
  characters, and returns true exactly for the strings of 25 to 50 characters that
  consist only of characters of \<open>[a-zA-Z0-9_-]\<close>.
\<close>

theorem isValidFileId_bounds:
  "(length s < 25 \<or> 50 < length s \<longrightarrow> \<not> isValidFileId s) \<and>
   (isValidFileId s \<longleftrightarrow> 25 \<le> length s \<and> length s \<le> 50 \<and> (\<forall>c\<in>set s. is_id_char c))"
  by (auto simp: isValidFileId_iff list_all_iff)

theorem isValidFileId_bounds_witness:
  "(length ''too_short'' < 25 \<or> 50 < length ''too_short'') \<and> \<not> isValidFileId ''too_short'' \<and>
   list_all is_id_char ''1BxiMVs0XRA5nFMdKvBdBZjgmUUqptlbs74OgvE2upms'' \<and>
   isValidFileId ''1BxiMVs0XRA5nFMdKvBdBZjgmUUqptlbs74OgvE2upms''"
proof -
  have short: "length ''too_short'' < 25 \<or> 50 < length ''too_short''"
    by simp
  have chars: "list_all is_id_char ''1BxiMVs0XRA5nFMdKvBdBZjgmUUqptlbs74OgvE2upms''"
    by (simp add: is_id_char_def)
  have len: "25 \<le> length ''1BxiMVs0XRA5nFMdKvBdBZjgmUUqptlbs74OgvE2upms'' \<and>
             length ''1BxiMVs0XRA5nFMdKvBdBZjgmUUqptlbs74OgvE2upms'' \<le> 50"
    by simp
  show ?thesis
    using short chars len isValidFileId_bounds [of "''too_short''"]
      isValidFileId_bounds [of "''1BxiMVs0XRA5nFMdKvBdBZjgmUUqptlbs74OgvE2upms''"]
    unfolding list_all_iff by blast
qed

lemma standardView_bare:
  assumes "ident \<noteq> []" "list_all is_id_char ident"
  shows "re_match_here standardView (''https://drive.google.com/file/d/'' @ ident)
         = Some (Some ident)"
proof -
  have ids: "\<forall>c\<in>set ident. is_id_char c" using assms(2) by (simp add: list_all_iff)
  have grp: "\<And>k cap. k [] (Some ident) \<noteq> (None :: string option option) \<Longrightarrow>
               rmatch (Group (Rep is_id_char (Suc 0) None)) ident cap k = k [] (Some ident)"
    using rmatch_Group_Plus_greedy [of ident is_id_char "[]"] assms(1) ids by simp
  show ?thesis
    unfolding re_match_here_def standardView_def http_prefix_def seqs_def
    by (simp add: grp del: rmatch.simps(3) rmatch.simps(7))
qed

text \<open>
  C10. The URL patterns capture identifiers of any positive length: the link
  \<open>https://drive.google.com/file/d/<id>\<close> is accepted by \<open>isValidGoogleDriveUrl\<close> and parsed
  to \<open><id>\<close> for every non-empty \<open><id>\<close> over the identifier alphabet. So some accepted
  URL carries an identifier that \<open>isValidFileId\<close> rejects; and for every such URL,
  \<open>generateDownloadUrl\<close> on the extracted identifier throws \<open>Invalid file ID provided\<close>, and
  \<open>analyzeGoogleDriveUrl\<close> throws that error instead of returning \<open>null\<close>.
\<close>

theorem parser_validator_gap:
  "(ident \<noteq> [] \<longrightarrow> list_all is_id_char ident \<longrightarrow>
      isValidGoogleDriveUrl (''https://drive.google.com/file/d/'' @ ident) \<and>
      parseGoogleDriveUrl (''https://drive.google.com/file/d/'' @ ident) = Some ident) \<and>
   (\<exists>u f. isValidGoogleDriveUrl u \<and> parseGoogleDriveUrl u = Some f \<and> \<not> isValidFileId f) \<and>
   (isValidGoogleDriveUrl url \<longrightarrow> parseGoogleDriveUrl url = Some fid \<longrightarrow> \<not> isValidFileId fid \<longrightarrow>
      generateDownloadUrl fid = Inl (Error ''Invalid file ID provided'') \<and>
      analyzeGoogleDriveUrl url = Inl (Error ''Invalid file ID provided''))"
proof (intro conjI impI)
  assume ne: "ident \<noteq> []" and ids: "list_all is_id_char ident"
  let ?u = "''https://drive.google.com/file/d/'' @ ident"
  have ex: "re_exec standardView ?u = Some (Some ident)"
    by (rule re_exec_here) (rule standardView_bare [OF ne ids])
  show "isValidGoogleDriveUrl ?u"
    using ex by (simp add: isValidGoogleDriveUrl_def GOOGLE_DRIVE_PATTERNS_def re_test_def)
  show "parseGoogleDriveUrl ?u = Some ident"
    using ex ne by (simp add: parseGoogleDriveUrl_def GOOGLE_DRIVE_PATTERNS_def group1_def)
next
  have "isValidGoogleDriveUrl ''https://drive.google.com/file/d/abc/view'' \<and>
        parseGoogleDriveUrl ''https://drive.google.com/file/d/abc/view'' = Some ''abc'' \<and>
        \<not> isValidFileId ''abc''"
    by code_simp
  then show "\<exists>u f. isValidGoogleDriveUrl u \<and> parseGoogleDriveUrl u = Some f \<and> \<not> isValidFileId f"
    by blast
next
  assume "\<not> isValidFileId fid"
  then show "generateDownloadUrl fid = Inl (Error ''Invalid file ID provided'')"
    by (simp add: generateDownloadUrl_def)
next
  assume v: "isValidGoogleDriveUrl url" and p: "parseGoogleDriveUrl url = Some fid"
    and n: "\<not> isValidFileId fid"
  have "fid \<noteq> []"
    using p by (auto simp: parseGoogleDriveUrl_def GOOGLE_DRIVE_PATTERNS_def group1_def
                     split: if_splits option.splits)
  then show "analyzeGoogleDriveUrl url = Inl (Error ''Invalid file ID provided'')"
    using v p n by (simp add: analyzeGoogleDriveUrl_def generateDownloadUrl_def)
qed

theorem parser_validator_gap_witness:
  "isValidGoogleDriveUrl ''https://drive.google.com/file/d/abc/view'' \<and>
   parseGoogleDriveUrl ''https://drive.google.com/file/d/abc/view'' = Some ''abc'' \<and>
   \<not> isValidFileId ''abc'' \<and>
   generateDownloadUrl ''abc'' = Inl (Error ''Invalid file ID provided'') \<and>
   analyzeGoogleDriveUrl ''https://drive.google.com/file/d/abc/view''
     = Inl (Error ''Invalid file ID provided'') \<and>
   ''xyz'' \<noteq> [] \<and> list_all is_id_char ''xyz'' \<and>
   parseGoogleDriveUrl (''https://drive.google.com/file/d/'' @ ''xyz'') = Some ''xyz''"
proof -
  have h: "isValidGoogleDriveUrl ''https://drive.google.com/file/d/abc/view'' \<and>
        parseGoogleDriveUrl ''https://drive.google.com/file/d/abc/view'' = Some ''abc'' \<and>
        \<not> isValidFileId ''abc''"
    by code_simp
  have i: "''xyz'' \<noteq> [] \<and> list_all is_id_char ''xyz''"
    by code_simp
  show ?thesis
    using h i parser_validator_gap [of "''xyz''" "''https://drive.google.com/file/d/abc/view''" "''abc''"]
    by blast
qed

text \<open>
  C3. The link shape \<open>/uc?id=<id>&export=download\<close>, which the comment on the
  \<open>directDownload\<close> pattern gives as its example, is not parsed: the pattern requires a
  \<open>&\<close> or a second \<open>?\<close> before \<open>id=\<close>, so no pattern matches and \<open>parseGoogleDriveUrl\<close>
  returns \<open>null\<close> for a valid identifier. The same identifier is extracted when
  \<open>export=download\<close> comes first.
\<close>

theorem parseGoogleDriveUrl_id_first_download_link:
  "parseGoogleDriveUrl
     ''https://drive.google.com/uc?id=1BxiMVs0XRA5nFMdKvBdBZjgmUUqptlbs74OgvE2upms&export=download''
     = None \<and>
   isValidFileId ''1BxiMVs0XRA5nFMdKvBdBZjgmUUqptlbs74OgvE2upms'' \<and>
   parseGoogleDriveUrl
     ''https://drive.google.com/uc?export=download&id=1BxiMVs0XRA5nFMdKvBdBZjgmUUqptlbs74OgvE2upms''
     = Some ''1BxiMVs0XRA5nFMdKvBdBZjgmUUqptlbs74OgvE2upms''"
  by code_simp

section \<open>Properties of retryOperation\<close>

lemma loop_ok:
  assumes "attempt \<le> n" "operation s = (Inr v, s')"
  shows "retryOperation_loop (counting operation) n bd md cond attempt prev (c, s) w
         = (Inr v, (Suc c, s'), w)"
  using assms by (subst retryOperation_loop.simps) (simp add: counting_def)

lemma loop_last:
  assumes "attempt \<le> n" "operation s = (Inl e, s')" "\<not> cond e \<or> attempt = n"
  shows "retryOperation_loop (counting operation) n bd md cond attempt prev (c, s) w
         = (Inl (Thrown e), (Suc c, s'), w)"
  using assms by (subst retryOperation_loop.simps) (auto simp add: counting_def)

lemma loop_retry:
  assumes "attempt < n" "operation s = (Inl e, s')" "cond e"
  shows "retryOperation_loop (counting operation) n bd md cond attempt prev (c, s) w
         = retryOperation_loop (counting operation) n bd md cond (Suc attempt) (Some e) (Suc c, s')
             (w @ [min (bd * 2 ^ (attempt - 1)) md])"
  using assms by (subst retryOperation_loop.simps) (simp add: counting_def Let_def)

lemma state_before_Suc:
  "state_before operation s (Suc k) = snd (operation (state_before operation s k))"
  by (simp add: state_before_def)

lemma operation_at:
  "operation (state_before operation s k) = (outcome operation s k, state_before operation s (Suc k))"
  by (simp add: outcome_def state_before_Suc)

lemma loop_all_fail:
  assumes "1 \<le> attempt" "attempt \<le> n"
    and fails: "\<And>k. attempt - 1 \<le> k \<Longrightarrow> k < n \<Longrightarrow> isl (outcome operation s0 k)"
    and conds: "\<And>k. attempt - 1 \<le> k \<Longrightarrow> Suc k < n \<Longrightarrow> cond (projl (outcome operation s0 k))"
  shows "\<exists>w'. retryOperation_loop (counting operation) n bd md cond attempt prev
           (c, state_before operation s0 (attempt - 1)) w
         = (Inl (Thrown (projl (outcome operation s0 (n - 1)))),
            (c + (Suc n - attempt), state_before operation s0 n), w')"
  using assms
proof (induction "n - attempt" arbitrary: attempt prev c w)
  case 0
  then have eq: "attempt = n" by simp
  have "isl (outcome operation s0 (n - 1))"
    using "0.prems"(3) [of "n - 1"] "0.prems"(1) eq by simp
  then obtain e where e: "outcome operation s0 (n - 1) = Inl e"
    by (cases "outcome operation s0 (n - 1)") auto
  have "Suc (n - 1) = n" using "0.prems"(1) eq by simp
  then have op: "operation (state_before operation s0 (n - 1)) = (Inl e, state_before operation s0 n)"
    using operation_at [of operation s0 "n - 1"] e by simp
  have "retryOperation_loop (counting operation) n bd md cond n prev
           (c, state_before operation s0 (n - 1)) w
         = (Inl (Thrown e), (Suc c, state_before operation s0 n), w)"
    using op by (subst retryOperation_loop.simps) (simp add: counting_def)
  then show ?case unfolding eq using e by simp
next
  case (Suc d)
  then have lt: "attempt < n" by simp
  have "isl (outcome operation s0 (attempt - 1))"
    using Suc.prems(3) [of "attempt - 1"] lt by simp
  then obtain e where e: "outcome operation s0 (attempt - 1) = Inl e"
    by (cases "outcome operation s0 (attempt - 1)") auto
  have sa: "Suc (attempt - 1) = attempt" using Suc.prems(1) by simp
  have op: "operation (state_before operation s0 (attempt - 1)) = (Inl e, state_before operation s0 attempt)"
    using operation_at [of operation s0 "attempt - 1"] e sa by simp
  have ce: "cond e"
    using Suc.prems(4) [of "attempt - 1"] lt sa e by simp
  have step: "retryOperation_loop (counting operation) n bd md cond attempt prev
           (c, state_before operation s0 (attempt - 1)) w
        = retryOperation_loop (counting operation) n bd md cond (Suc attempt) (Some e)
           (Suc c, state_before operation s0 attempt) (w @ [min (bd * 2 ^ (attempt - 1)) md])"
    using lt op ce by (subst retryOperation_loop.simps) (simp add: counting_def Let_def)
  have d: "d = n - Suc attempt" using Suc.hyps(2) by simp
  have "\<exists>w'. retryOperation_loop (counting operation) n bd md cond (Suc attempt) (Some e)
           (Suc c, state_before operation s0 (Suc attempt - 1)) (w @ [min (bd * 2 ^ (attempt - 1)) md])
         = (Inl (Thrown (projl (outcome operation s0 (n - 1)))),
            (Suc c + (Suc n - Suc attempt), state_before operation s0 n), w')"
  proof (rule Suc.hyps(1) [OF d])
    show "1 \<le> Suc attempt" by simp
    show "Suc attempt \<le> n" using lt by simp
    show "isl (outcome operation s0 k)" if "Suc attempt - 1 \<le> k" "k < n" for k
      using Suc.prems(3) [of k] that by simp
    show "cond (projl (outcome operation s0 k))" if "Suc attempt - 1 \<le> k" "Suc k < n" for k
      using Suc.prems(4) [of k] that by simp
  qed
  then obtain w' where w': "retryOperation_loop (counting operation) n bd md cond (Suc attempt) (Some e)
           (Suc c, state_before operation s0 (Suc attempt - 1)) (w @ [min (bd * 2 ^ (attempt - 1)) md])
         = (Inl (Thrown (projl (outcome operation s0 (n - 1)))),
            (Suc c + (Suc n - Suc attempt), state_before operation s0 n), w')"
    by blast
  have arith: "Suc c + (Suc n - Suc attempt) = c + (Suc n - attempt)" using lt by arith
  show ?case
    by (rule exI [of _ w']) (use step w' arith in simp)
qed

lemma retry_twice_then_ok:
  assumes n: "3 \<le> n"
    and o0: "outcome operation s 0 = Inl e1" and o1: "outcome operation s 1 = Inl e2"
    and o2: "outcome operation s 2 = Inr v" and c1: "cond e1" and c2: "cond e2"
  shows "retryOperation_loop (counting operation) n bd md cond 1 None (0, s) []
         = (Inr v, (3, state_before operation s 3), [min bd md, min (bd * 2) md])"
proof -
  have op0: "operation (state_before operation s 0) = (Inl e1, state_before operation s 1)"
    using operation_at [of operation s 0] o0 by simp
  have op1: "operation (state_before operation s 1) = (Inl e2, state_before operation s 2)"
    using operation_at [of operation s 1] o1 by (simp add: numeral_2_eq_2)
  have op2: "operation (state_before operation s 2) = (Inr v, state_before operation s 3)"
    using operation_at [of operation s 2] o2 by (simp add: numeral_3_eq_3 numeral_2_eq_2)
  have s0: "state_before operation s 0 = s" by (simp add: state_before_def)
  have "retryOperation_loop (counting operation) n bd md cond 1 None (0, s) []
        = retryOperation_loop (counting operation) n bd md cond 2 (Some e1)
            (1, state_before operation s 1) [min bd md]"
    using n op0 c1 unfolding s0
    by (subst retryOperation_loop.simps) (simp add: counting_def Let_def numeral_2_eq_2)
  also have "\<dots> = retryOperation_loop (counting operation) n bd md cond 3 (Some e2)
            (2, state_before operation s 2) [min bd md, min (bd * 2) md]"
    using n op1 c2
    by (subst retryOperation_loop.simps) (simp add: counting_def Let_def numeral_3_eq_3 numeral_2_eq_2)
  also have "\<dots> = (Inr v, (3, state_before operation s 3), [min bd md, min (bd * 2) md])"
    using n op2
    by (subst retryOperation_loop.simps) (simp add: counting_def numeral_3_eq_3)
  finally show ?thesis .
qed

text \<open>
  C6. With \<open>maxRetries\<close> at least 3, an operation that fails on its first two
  invocations and succeeds on the third makes \<open>retryOperation\<close> return the success
  value after exactly three invocations. With \<open>maxRetries\<close> at least 1, an operation
  that fails on every invocation is invoked exactly \<open>maxRetries\<close> times and the error
  of the last invocation is thrown. The errors met before the last attempt are
  accepted by \<open>retryCondition\<close>, as they all are by its default. The invocations are
  counted by the operation itself.
\<close>

theorem retryOperation_invocation_count:
  "(3 \<le> max_retries_of opts \<longrightarrow>
      outcome operation s 0 = Inl e1 \<longrightarrow> outcome operation s 1 = Inl e2 \<longrightarrow>
      outcome operation s 2 = Inr v \<longrightarrow>
      retry_condition_of opts e1 \<longrightarrow> retry_condition_of opts e2 \<longrightarrow>
        fst (retryOperation (counting operation) opts (0, s)) = Inr v \<and>
        fst (fst (snd (retryOperation (counting operation) opts (0, s)))) = 3) \<and>
   (1 \<le> max_retries_of opts \<longrightarrow>
      (\<forall>k < max_retries_of opts. isl (outcome operation s k)) \<longrightarrow>
      (\<forall>k. Suc k < max_retries_of opts \<longrightarrow> retry_condition_of opts (projl (outcome operation s k))) \<longrightarrow>
        fst (retryOperation (counting operation) opts (0, s))
          = Inl (Thrown (projl (outcome operation s (max_retries_of opts - 1)))) \<and>
        fst (fst (snd (retryOperation (counting operation) opts (0, s)))) = max_retries_of opts)"
proof (intro conjI impI)
  assume "3 \<le> max_retries_of opts" "outcome operation s 0 = Inl e1"
    "outcome operation s 1 = Inl e2" "outcome operation s 2 = Inr v"
    "retry_condition_of opts e1" "retry_condition_of opts e2"
  then have *: "retryOperation (counting operation) opts (0, s)
      = (Inr v, (3, state_before operation s 3),
         [min (case baseDelay opts of None \<Rightarrow> 1000 | Some d \<Rightarrow> d) (case maxDelay opts of None \<Rightarrow> 10000 | Some d \<Rightarrow> d),
          min ((case baseDelay opts of None \<Rightarrow> 1000 | Some d \<Rightarrow> d) * 2) (case maxDelay opts of None \<Rightarrow> 10000 | Some d \<Rightarrow> d)])"
    unfolding retryOperation_def by (rule retry_twice_then_ok)
  show "fst (retryOperation (counting operation) opts (0, s)) = Inr v"
    by (simp add: *)
  show "fst (fst (snd (retryOperation (counting operation) opts (0, s)))) = 3"
    by (simp add: *)
next
  assume n: "1 \<le> max_retries_of opts"
    and f: "\<forall>k < max_retries_of opts. isl (outcome operation s k)"
    and c: "\<forall>k. Suc k < max_retries_of opts \<longrightarrow> retry_condition_of opts (projl (outcome operation s k))"
  have "\<exists>w'. retryOperation_loop (counting operation) (max_retries_of opts)
           (case baseDelay opts of None \<Rightarrow> 1000 | Some d \<Rightarrow> d)
           (case maxDelay opts of None \<Rightarrow> 10000 | Some d \<Rightarrow> d)
           (retry_condition_of opts) 1 None (0, state_before operation s (1 - 1)) []
         = (Inl (Thrown (projl (outcome operation s (max_retries_of opts - 1)))),
            (0 + (Suc (max_retries_of opts) - 1), state_before operation s (max_retries_of opts)), w')"
    by (rule loop_all_fail) (use n f c in auto)
  then obtain w' where *: "retryOperation (counting operation) opts (0, s)
         = (Inl (Thrown (projl (outcome operation s (max_retries_of opts - 1)))),
            (max_retries_of opts, state_before operation s (max_retries_of opts)), w')"
    unfolding retryOperation_def by (auto simp: state_before_def)
  show "fst (retryOperation (counting operation) opts (0, s))
          = Inl (Thrown (projl (outcome operation s (max_retries_of opts - 1))))"
    by (simp add: *)
  show "fst (fst (snd (retryOperation (counting operation) opts (0, s)))) = max_retries_of opts"
    by (simp add: *)
qed

lemma broken_outcome: "state_before broken 0 k = k \<and> outcome broken 0 k = Inl k"
  by (induction k) (simp_all add: state_before_def outcome_def broken_def)

theorem retryOperation_invocation_count_witness:
  "fst (retryOperation (counting flaky)
          \<lparr> maxRetries = None, baseDelay = None, maxDelay = None, retryCondition = None \<rparr> (0, 0))
     = Inr ''ok'' \<and>
   fst (fst (snd (retryOperation (counting flaky)
          \<lparr> maxRetries = None, baseDelay = None, maxDelay = None, retryCondition = None \<rparr> (0, 0))))
     = 3 \<and>
   fst (retryOperation (counting broken)
          \<lparr> maxRetries = Some 4, baseDelay = None, maxDelay = None, retryCondition = None \<rparr> (0, 0))
     = Inl (Thrown 3) \<and>
   fst (fst (snd (retryOperation (counting broken)
          \<lparr> maxRetries = Some 4, baseDelay = None, maxDelay = None, retryCondition = None \<rparr> (0, 0))))
     = 4"
proof -
  let ?d = "\<lparr> maxRetries = None, baseDelay = None, maxDelay = None,
              retryCondition = (None :: (string \<Rightarrow> bool) option) \<rparr>"
  let ?o = "\<lparr> maxRetries = Some 4, baseDelay = None, maxDelay = None,
              retryCondition = (None :: (nat \<Rightarrow> bool) option) \<rparr>"
  have a: "3 \<le> max_retries_of ?d" "retry_condition_of ?d ''down''"
    by (simp_all add: max_retries_of_def retry_condition_of_def)
  have b: "outcome flaky 0 0 = Inl ''down''" "outcome flaky 0 1 = Inl ''down''"
      "outcome flaky 0 2 = Inr ''ok''"
    by (simp_all add: outcome_def state_before_def flaky_def numeral_2_eq_2)
  have m: "max_retries_of ?o = 4" by (simp add: max_retries_of_def)
  have c: "1 \<le> max_retries_of ?o" "\<forall>k < max_retries_of ?o. isl (outcome broken 0 k)"
      "\<forall>k. Suc k < max_retries_of ?o \<longrightarrow> retry_condition_of ?o (projl (outcome broken 0 k))"
    by (simp_all add: m broken_outcome retry_condition_of_def)
  have d: "projl (outcome broken 0 (max_retries_of ?o - 1)) = 3"
    by (simp add: m broken_outcome)
  show ?thesis
    using retryOperation_invocation_count [of ?d flaky 0 "''down''" "''down''" "''ok''"] a b
      retryOperation_invocation_count [of ?o broken 0] c d m
    by simp
qed

section \<open>Properties of the file handler\<close>

text \<open>
  C5, as the code has it. \<open>determineSendMethod\<close> returns one of five methods, not four:
  \<open>sendVideo\<close>, \<open>sendPhoto\<close>, \<open>sendAudio\<close>, \<open>sendAnimation\<close> or \<open>sendDocument\<close>. It returns
  \<open>sendAnimation\<close> exactly when the MIME type is in neither list of supported types,
  does not start with \<open>audio/\<close>, and the file name ends in \<open>.gif\<close> in any case.
\<close>

theorem determineSendMethod_five_methods:
  "send_method (determineSendMethod fileType name)
     \<in> {''sendVideo'', ''sendPhoto'', ''sendAudio'', ''sendAnimation'', ''sendDocument''} \<and>
   (send_method (determineSendMethod fileType name) = ''sendAnimation'' \<longleftrightarrow>
      mime_or_default fileType \<notin> set SUPPORTED_VIDEO_TYPES \<and>
      mime_or_default fileType \<notin> set SUPPORTED_IMAGE_TYPES \<and>
      \<not> startsWith (mime_or_default fileType) ''audio/'' \<and>
      endsWith (toLowerCase name) ''.gif'')"
proof -
  have gif: "''image/gif'' \<in> set SUPPORTED_IMAGE_TYPES"
    by (simp add: SUPPORTED_IMAGE_TYPES_def)
  show ?thesis
    unfolding determineSendMethod_def Let_def using gif by auto
qed

theorem determineSendMethod_five_methods_witness:
  "send_method (determineSendMethod None ''report.pdf'')
     \<in> {''sendVideo'', ''sendPhoto'', ''sendAudio'', ''sendAnimation'', ''sendDocument''} \<and>
   send_method (determineSendMethod None ''report.pdf'') \<noteq> ''sendAnimation'' \<and>
   \<not> endsWith (toLowerCase ''report.pdf'') ''.gif''"
proof -
  have "\<not> endsWith (toLowerCase ''report.pdf'') ''.gif''"
    by code_simp
  then show ?thesis
    using determineSendMethod_five_methods [of None "''report.pdf''"] by blast
qed

text \<open>
  C5 as stated fails: a PDF whose name ends in \<open>.GIF\<close> is sent with \<open>sendAnimation\<close>,
  which is none of the four methods of the claim.
\<close>

theorem determineSendMethod_fifth_method:
  "send_method (determineSendMethod
      (Some \<lparr> ext = ''pdf'', mime = ''application/pdf'', detection_method = ''magic-numbers'',
              confidence = ''high'', error_message = None \<rparr>) ''clip.GIF'') = ''sendAnimation'' \<and>
   send_method (determineSendMethod
      (Some \<lparr> ext = ''pdf'', mime = ''application/pdf'', detection_method = ''magic-numbers'',
              confidence = ''high'', error_message = None \<rparr>) ''clip.GIF'')
     \<notin> {''sendVideo'', ''sendPhoto'', ''sendAudio'', ''sendDocument''}"
  by code_simp





section \<open>Properties of the token extractor\<close>

lemma re_exec_leftmost:
  assumes "i \<le> length s" "\<And>j. j < i \<Longrightarrow> re_match_here r (drop j s) = None"
    "re_match_here r (drop i s) = Some m"
  shows "re_exec r s = Some m"
  using assms
proof (induction s arbitrary: i)
  case Nil
  then show ?case by simp
next
  case (Cons c cs)
  show ?case
  proof (cases i)
    case 0
    with Cons.prems(3) show ?thesis by simp
  next
    case (Suc i')
    have here: "re_match_here r (c # cs) = None"
      using Cons.prems(2) [of 0] Suc by simp
    have "re_exec r cs = Some m"
    proof (rule Cons.IH [of i'])
      show "i' \<le> length cs" using Cons.prems(1) Suc by simp
      show "re_match_here r (drop j cs) = None" if "j < i'" for j
        using Cons.prems(2) [of "Suc j"] that Suc by simp
      show "re_match_here r (drop i' cs) = Some m"
        using Cons.prems(3) Suc by simp
    qed
    with here show ?thesis by simp
  qed
qed

lemma re_exec_nowhere:
  assumes "\<And>j. j \<le> length s \<Longrightarrow> re_match_here r (drop j s) = None"
  shows "re_exec r s = None"
  using assms
proof (induction s)
  case Nil
  then show ?case using Nil [of 0] by simp
next
  case (Cons c cs)
  have here: "re_match_here r (c # cs) = None" using Cons.prems [of 0] by simp
  have "re_exec r cs = None"
  proof (rule Cons.IH)
    show "re_match_here r (drop j cs) = None" if "j \<le> length cs" for j
      using Cons.prems [of "Suc j"] that by simp
  qed
  with here show ?case by simp
qed

lemma occurrence_iff:
  "(j, i) \<in> set (token_occurrences html) \<longleftrightarrow>
     j < length confirmation_patterns \<and> i \<le> length html \<and>
     re_match_here (confirmation_patterns ! j) (drop i html) \<noteq> None"
  by (auto simp: token_occurrences_def occurs_at_def less_Suc_eq_le simp del: upt_Suc)

lemma id_not_dquote: "is_id_char c \<Longrightarrow> not_dquote c"
  by (auto simp: is_id_char_def not_dquote_def)

lemma match_query:
  assumes "tok \<noteq> []" "list_all is_id_char tok" "post = [] \<or> \<not> is_id_char (hd post)"
  shows "re_match_here (confirmation_patterns ! 0) (''confirm='' @ tok @ post) = Some (Some tok)"
proof -
  have ids: "\<forall>c\<in>set tok. is_id_char c" using assms(2) by (simp add: list_all_iff)
  have grp: "\<And>k cap. k post (Some tok) \<noteq> (None :: string option option) \<Longrightarrow>
      rmatch (Group (Rep is_id_char (Suc 0) None)) (tok @ post) cap k = k post (Some tok)"
    using rmatch_Group_Plus_greedy [of tok is_id_char post] assms(1,3) ids
    by (simp del: rmatch.simps)
  show ?thesis
    unfolding re_match_here_def confirmation_patterns_def seqs_def
    by (simp add: grp del: rmatch.simps(3) rmatch.simps(7))
qed

lemma match_hidden:
  assumes "tok \<noteq> []" "list_all not_dquote tok"
  shows \<open>re_match_here (confirmation_patterns ! 1) (''name="confirm" value="'' @ tok @ ''"'' @ post)
         = Some (Some tok)\<close>
proof -
  have nq: "\<forall>c\<in>set tok. not_dquote c" using assms(2) by (simp add: list_all_iff)
  have grp: "\<And>k cap. k (CHR 0x22 # post) (Some tok) \<noteq> (None :: string option option) \<Longrightarrow>
      rmatch (Group (Rep not_dquote (Suc 0) None)) (tok @ CHR 0x22 # post) cap k
        = k (CHR 0x22 # post) (Some tok)"
    using rmatch_Group_Plus_greedy [of tok not_dquote "CHR 0x22 # post"] assms(1) nq
    by (simp add: not_dquote_def del: rmatch.simps)
  have sp: "takeWhile is_space ('' value='' @ rest) = '' ''" for rest
    by (simp add: is_space_def)
  show ?thesis
    unfolding re_match_here_def confirmation_patterns_def seqs_def
    by (simp add: grp is_space_def del: rmatch.simps(7))
qed

lemma match_json:
  assumes "tok \<noteq> []" "list_all not_dquote tok"
  shows \<open>re_match_here (confirmation_patterns ! 3) (''"confirm":"'' @ tok @ ''"'' @ post)
         = Some (Some tok)\<close>
proof -
  have nq: "\<forall>c\<in>set tok. not_dquote c" using assms(2) by (simp add: list_all_iff)
  have grp: "\<And>k cap. k (CHR 0x22 # post) (Some tok) \<noteq> (None :: string option option) \<Longrightarrow>
      rmatch (Group (Rep not_dquote (Suc 0) None)) (tok @ CHR 0x22 # post) cap k
        = k (CHR 0x22 # post) (Some tok)"
    using rmatch_Group_Plus_greedy [of tok not_dquote "CHR 0x22 # post"] assms(1) nq
    by (simp add: not_dquote_def del: rmatch.simps)
  show ?thesis
    unfolding re_match_here_def confirmation_patterns_def seqs_def
    by (simp add: grp del: rmatch.simps(3) rmatch.simps(7))
qed

lemma length_confirmation_patterns: "length confirmation_patterns = 4"
  by (simp add: confirmation_patterns_def)

lemma exec_at:
  assumes "j < 4" "i \<le> length body"
    and first: "\<And>i'. (j, i') \<in> set (token_occurrences body) \<Longrightarrow> i \<le> i'"
    and here: "re_match_here (confirmation_patterns ! j) (drop i body) = Some m"
  shows "re_exec (confirmation_patterns ! j) body = Some m"
proof (rule re_exec_leftmost [OF assms(2) _ here])
  fix i' assume lt: "i' < i"
  have "(j, i') \<notin> set (token_occurrences body)" using first [of i'] lt by auto
  then show "re_match_here (confirmation_patterns ! j) (drop i' body) = None"
    using lt assms(1,2) by (simp add: occurrence_iff length_confirmation_patterns)
qed

lemma exec_none:
  assumes "j < 4" and none: "\<And>i'. (j, i') \<notin> set (token_occurrences body)"
  shows "re_exec (confirmation_patterns ! j) body = None"
proof (rule re_exec_nowhere)
  fix i' assume "i' \<le> length body"
  then show "re_match_here (confirmation_patterns ! j) (drop i' body) = None"
    using none [of i'] assms(1) by (simp add: occurrence_iff length_confirmation_patterns)
qed

lemma extract_unfold:
  assumes "body \<noteq> []"
  shows "extractConfirmationToken body =
     (case group1 (confirmation_patterns ! 0) body of
        Some r \<Rightarrow> Some r
      | None \<Rightarrow>
         (case group1 (confirmation_patterns ! 1) body of
            Some r \<Rightarrow> Some r
          | None \<Rightarrow>
             (case group1 (confirmation_patterns ! 2) body of
                Some r \<Rightarrow> Some r
              | None \<Rightarrow> group1 (confirmation_patterns ! 3) body)))"
  using assms
  by (simp add: extractConfirmationToken_def confirmation_patterns_def split: option.splits)

lemma token_in_query:
  assumes "tok \<noteq> []" "list_all is_id_char tok" "post = [] \<or> \<not> is_id_char (hd post)"
    and occ: "\<And>i'. (0, i') \<in> set (token_occurrences (pre @ ''confirm='' @ tok @ post))
                \<Longrightarrow> length pre \<le> i'"
  shows "extractConfirmationToken (pre @ ''confirm='' @ tok @ post) = Some tok"
proof -
  let ?body = "pre @ ''confirm='' @ tok @ post"
  have "re_exec (confirmation_patterns ! 0) ?body = Some (Some tok)"
  proof (rule exec_at [where i = "length pre"])
    show "re_match_here (confirmation_patterns ! 0) (drop (length pre) ?body) = Some (Some tok)"
      using match_query [OF assms(1-3)] by simp
  qed (use occ in simp_all)
  then have "group1 (confirmation_patterns ! 0) ?body = Some tok"
    using assms(1) by (simp add: group1_def)
  then show ?thesis by (simp add: extract_unfold)
qed

lemma token_in_hidden:
  assumes ne: "tok \<noteq> []" and nq: "list_all not_dquote tok"
    and occ: \<open>token_occurrences (pre @ ''name="confirm" value="'' @ tok @ ''"'' @ post)
                = [(1, length pre)]\<close>
  shows \<open>extractConfirmationToken (pre @ ''name="confirm" value="'' @ tok @ ''"'' @ post)
           = Some tok\<close>
proof -
  let ?body = \<open>pre @ ''name="confirm" value="'' @ tok @ ''"'' @ post\<close>
  have "re_exec (confirmation_patterns ! 0) ?body = None"
    by (rule exec_none) (use occ in simp_all)
  then have g0: "group1 (confirmation_patterns ! 0) ?body = None"
    by (simp add: group1_def)
  have "re_exec (confirmation_patterns ! 1) ?body = Some (Some tok)"
  proof (rule exec_at [where i = "length pre"])
    show "re_match_here (confirmation_patterns ! 1) (drop (length pre) ?body) = Some (Some tok)"
      using match_hidden [OF ne nq, of post] by simp
  qed (use occ in simp_all)
  then have g1: "group1 (confirmation_patterns ! 1) ?body = Some tok"
    using ne by (simp add: group1_def)
  show "extractConfirmationToken ?body = Some tok"
    using g0 g1 by (simp add: extract_unfold)
qed

lemma token_in_json:
  assumes ne: "tok \<noteq> []" and nq: "list_all not_dquote tok"
    and occ: \<open>token_occurrences (pre @ ''"confirm":"'' @ tok @ ''"'' @ post) = [(3, length pre)]\<close>
  shows \<open>extractConfirmationToken (pre @ ''"confirm":"'' @ tok @ ''"'' @ post) = Some tok\<close>
proof -
  let ?body = \<open>pre @ ''"confirm":"'' @ tok @ ''"'' @ post\<close>
  have none: "re_exec (confirmation_patterns ! j) ?body = None" if "j < 3" for j
    by (rule exec_none) (use that occ in simp_all)
  have g: "group1 (confirmation_patterns ! 0) ?body = None"
      "group1 (confirmation_patterns ! 1) ?body = None"
      "group1 (confirmation_patterns ! 2) ?body = None"
    using none [of 0] none [of 1] none [of 2] by (simp_all add: group1_def)
  have "re_exec (confirmation_patterns ! 3) ?body = Some (Some tok)"
  proof (rule exec_at [where i = "length pre"])
    show "re_match_here (confirmation_patterns ! 3) (drop (length pre) ?body) = Some (Some tok)"
      using match_json [OF ne nq, of post] by simp
  qed (use occ in simp_all)
  then have g3: "group1 (confirmation_patterns ! 3) ?body = Some tok"
    using ne by (simp add: group1_def)
  show "extractConfirmationToken ?body = Some tok"
    using g g3 by (simp add: extract_unfold)
qed

text \<open>
  What follows \<open>confirm=\<close> splits into its longest run of \<open>[a-zA-Z0-9_-]\<close> and a rest
  that does not begin with such a character; what follows an opening double quote
  and is closed by one splits into its part before the first double quote and a rest.
\<close>

lemma run_split:
  "s = takeWhile p s @ dropWhile p s \<and> list_all p (takeWhile p s) \<and>
   (dropWhile p s = [] \<or> \<not> p (hd (dropWhile p s)))"
proof (intro conjI)
  show "s = takeWhile p s @ dropWhile p s" by simp
  show "list_all p (takeWhile p s)"
    by (simp add: list_all_iff) (meson set_takeWhileD)
  show "dropWhile p s = [] \<or> \<not> p (hd (dropWhile p s))"
    using hd_dropWhile [of p s] by blast
qed

lemma quoted_split:
  "\<exists>rest. tok @ [CHR 0x22] @ post = takeWhile not_dquote tok @ [CHR 0x22] @ rest"
proof (cases "dropWhile not_dquote tok")
  case Nil
  then have t: "takeWhile not_dquote tok = tok"
    by (metis append_Nil2 takeWhile_dropWhile_id)
  show ?thesis by (rule exI [of _ post]) (simp only: t)
next
  case (Cons c cs)
  then have "\<not> not_dquote c" using hd_dropWhile [of not_dquote tok] by auto
  then have c: "c = CHR 0x22" by (simp add: not_dquote_def)
  have "tok = takeWhile not_dquote tok @ c # cs"
    using Cons takeWhile_dropWhile_id [of not_dquote tok] by simp
  then have "tok @ [CHR 0x22] @ post
             = takeWhile not_dquote tok @ [CHR 0x22] @ (cs @ [CHR 0x22] @ post)"
    using c by (metis append.assoc append_Cons append_Nil)
  then show ?thesis by blast
qed

lemma run_is_token:
  assumes "list_all p tok" "post = [] \<or> \<not> p (hd post)"
  shows "takeWhile p (tok @ post) = tok"
proof -
  have "takeWhile p (tok @ post) = tok @ takeWhile p post"
    using assms(1) by (simp add: list_all_iff takeWhile_append2)
  moreover have "takeWhile p post = []"
    using assms(2) by (cases post) auto
  ultimately show ?thesis by simp
qed

lemma quoted_is_token:
  assumes "list_all not_dquote tok"
  shows "takeWhile not_dquote tok = tok"
  using assms by (simp add: list_all_iff)

text \<open>
  C7, as the code has it. A page embeds a token in one of the four recognised
  patterns: it is \<open>pre @ pattern @ post\<close>, where the pattern is \<open>confirm=<token>\<close>,
  \<open>&confirm=<token>\<close>, \<open>name="confirm" value="<token>"\<close> or \<open>"confirm":"<token>"\<close>, and
  this is the only occurrence of a confirmation pattern in the page (an
  ampersand-prefixed parameter is an occurrence of the first and of the third
  pattern). For every token value, the two parameter patterns return the longest run
  of characters of \<open>[a-zA-Z0-9_-]\<close> that follows \<open>confirm=\<close>, and the two quoted patterns
  return the token up to its first double quote, when these are not empty. So
  \<open>extractConfirmationToken\<close> returns the token itself, whichever pattern the page
  used, when the token is a non-empty run of \<open>[a-zA-Z0-9_-]\<close> that ends where \<open>post\<close>
  begins; the two quoted patterns also return every non-empty token that has no
  double quote.
\<close>

theorem extractConfirmationToken_pattern_agreement:
  \<open>(takeWhile is_id_char (tok @ post) \<noteq> [] \<longrightarrow>
      token_occurrences (pre @ ''confirm='' @ tok @ post) = [(0, length pre)] \<longrightarrow>
      extractConfirmationToken (pre @ ''confirm='' @ tok @ post)
        = Some (takeWhile is_id_char (tok @ post))) \<and>
   (takeWhile is_id_char (tok @ post) \<noteq> [] \<longrightarrow>
      token_occurrences (pre @ ''&confirm='' @ tok @ post)
        = [(0, Suc (length pre)), (2, length pre)] \<longrightarrow>
      extractConfirmationToken (pre @ ''&confirm='' @ tok @ post)
        = Some (takeWhile is_id_char (tok @ post))) \<and>
   (takeWhile not_dquote tok \<noteq> [] \<longrightarrow>
      token_occurrences (pre @ ''name="confirm" value="'' @ tok @ ''"'' @ post)
        = [(1, length pre)] \<longrightarrow>
      extractConfirmationToken (pre @ ''name="confirm" value="'' @ tok @ ''"'' @ post)
        = Some (takeWhile not_dquote tok)) \<and>
   (takeWhile not_dquote tok \<noteq> [] \<longrightarrow>
      token_occurrences (pre @ ''"confirm":"'' @ tok @ ''"'' @ post) = [(3, length pre)] \<longrightarrow>
      extractConfirmationToken (pre @ ''"confirm":"'' @ tok @ ''"'' @ post)
        = Some (takeWhile not_dquote tok)) \<and>
   (tok \<noteq> [] \<longrightarrow>
     (list_all is_id_char tok \<longrightarrow> (post = [] \<or> \<not> is_id_char (hd post)) \<longrightarrow>
        token_occurrences (pre @ ''confirm='' @ tok @ post) = [(0, length pre)] \<longrightarrow>
        extractConfirmationToken (pre @ ''confirm='' @ tok @ post) = Some tok) \<and>
     (list_all is_id_char tok \<longrightarrow> (post = [] \<or> \<not> is_id_char (hd post)) \<longrightarrow>
        token_occurrences (pre @ ''&confirm='' @ tok @ post)
          = [(0, Suc (length pre)), (2, length pre)] \<longrightarrow>
        extractConfirmationToken (pre @ ''&confirm='' @ tok @ post) = Some tok) \<and>
     (list_all not_dquote tok \<longrightarrow>
        token_occurrences (pre @ ''name="confirm" value="'' @ tok @ ''"'' @ post)
          = [(1, length pre)] \<longrightarrow>
        extractConfirmationToken (pre @ ''name="confirm" value="'' @ tok @ ''"'' @ post)
          = Some tok) \<and>
     (list_all not_dquote tok \<longrightarrow>
        token_occurrences (pre @ ''"confirm":"'' @ tok @ ''"'' @ post) = [(3, length pre)] \<longrightarrow>
        extractConfirmationToken (pre @ ''"confirm":"'' @ tok @ ''"'' @ post) = Some tok))\<close>
proof -
  let ?run = "takeWhile is_id_char (tok @ post)"
  let ?rest = "dropWhile is_id_char (tok @ post)"
  let ?quoted = "takeWhile not_dquote tok"
  have split: "tok @ post = ?run @ ?rest" "list_all is_id_char ?run"
      "?rest = [] \<or> \<not> is_id_char (hd ?rest)"
    using run_split [of "tok @ post" is_id_char] by blast+
  have query: "extractConfirmationToken (pre @ ''confirm='' @ tok @ post) = Some ?run"
    if ne: "?run \<noteq> []"
      and occ: "token_occurrences (pre @ ''confirm='' @ tok @ post) = [(0, length pre)]"
  proof -
    have "extractConfirmationToken (pre @ ''confirm='' @ ?run @ ?rest) = Some ?run"
      by (rule token_in_query [OF ne split(2,3)]) (use occ in simp)
    then show ?thesis by simp
  qed
  have amp: "extractConfirmationToken (pre @ ''&confirm='' @ tok @ post) = Some ?run"
    if ne: "?run \<noteq> []"
      and occ: "token_occurrences (pre @ ''&confirm='' @ tok @ post)
                  = [(0, Suc (length pre)), (2, length pre)]"
  proof -
    have "extractConfirmationToken ((pre @ ''&'') @ ''confirm='' @ ?run @ ?rest) = Some ?run"
      by (rule token_in_query [OF ne split(2,3)]) (use occ in simp)
    then show ?thesis by simp
  qed
  obtain rest where q: "tok @ [CHR 0x22] @ post = ?quoted @ [CHR 0x22] @ rest"
    using quoted_split [of tok post] by blast
  have nq: "list_all not_dquote ?quoted"
    using run_split [of tok not_dquote] by blast
  have hidden: \<open>extractConfirmationToken (pre @ ''name="confirm" value="'' @ tok @ ''"'' @ post)
                   = Some ?quoted\<close>
    if ne: "?quoted \<noteq> []"
      and occ: \<open>token_occurrences (pre @ ''name="confirm" value="'' @ tok @ ''"'' @ post)
                  = [(1, length pre)]\<close>
  proof -
    have eq: \<open>pre @ ''name="confirm" value="'' @ tok @ ''"'' @ post
              = pre @ ''name="confirm" value="'' @ ?quoted @ ''"'' @ rest\<close>
      using q by simp
    show ?thesis
      unfolding eq by (rule token_in_hidden [OF ne nq]) (use occ eq in simp)
  qed
  have json: \<open>extractConfirmationToken (pre @ ''"confirm":"'' @ tok @ ''"'' @ post) = Some ?quoted\<close>
    if ne: "?quoted \<noteq> []"
      and occ: \<open>token_occurrences (pre @ ''"confirm":"'' @ tok @ ''"'' @ post) = [(3, length pre)]\<close>
  proof -
    have eq: \<open>pre @ ''"confirm":"'' @ tok @ ''"'' @ post
              = pre @ ''"confirm":"'' @ ?quoted @ ''"'' @ rest\<close>
      using q by simp
    show ?thesis
      unfolding eq by (rule token_in_json [OF ne nq]) (use occ eq in simp)
  qed
  have run_tok: "?run = tok"
    if "list_all is_id_char tok" "post = [] \<or> \<not> is_id_char (hd post)"
    using that by (rule run_is_token)
  have quoted_tok: "?quoted = tok" if "list_all not_dquote tok"
    using that by (rule quoted_is_token)
  show ?thesis
    using query amp hidden json run_tok quoted_tok by metis
qed

theorem extractConfirmationToken_pattern_agreement_witness:
  \<open>extractConfirmationToken ''<a href="x?a=b;confirm=t0K&id=1">'' = Some ''t0K'' \<and>
   extractConfirmationToken ''<a href="x?a=b&confirm=t0K&id=1">'' = Some ''t0K'' \<and>
   extractConfirmationToken ''<input name="confirm" value="t0K">'' = Some ''t0K'' \<and>
   extractConfirmationToken ''{"confirm":"t0K"}'' = Some ''t0K'' \<and>
   extractConfirmationToken ''<a href="x?confirm=a.b">'' = Some ''a''\<close>
proof -
  have tok: "''t0K'' \<noteq> []" "list_all is_id_char ''t0K''" "list_all not_dquote ''t0K''"
    by (simp_all add: is_id_char_def not_dquote_def)
  have del: \<open>''&id=1">'' = [] \<or> \<not> is_id_char (hd ''&id=1">'')\<close>
    by (simp add: is_id_char_def)
  have o1: \<open>token_occurrences (''<a href="x?a=b;'' @ ''confirm='' @ ''t0K'' @ ''&id=1">'')
              = [(0, length ''<a href="x?a=b;'')]\<close>
    by code_simp
  have o2: \<open>token_occurrences (''<a href="x?a=b'' @ ''&confirm='' @ ''t0K'' @ ''&id=1">'')
              = [(0, Suc (length ''<a href="x?a=b'')), (2, length ''<a href="x?a=b'')]\<close>
    by code_simp
  have o3: \<open>token_occurrences (''<input '' @ ''name="confirm" value="'' @ ''t0K'' @ ''"'' @ ''>'')
              = [(1, length ''<input '')]\<close>
    by code_simp
  have o4: \<open>token_occurrences (''{'' @ ''"confirm":"'' @ ''t0K'' @ ''"'' @ ''}'')
              = [(3, length ''{'')]\<close>
    by code_simp
  have o5: \<open>token_occurrences (''<a href="x?'' @ ''confirm='' @ ''a.b'' @ ''">'')
              = [(0, length ''<a href="x?'')]\<close>
    by code_simp
  have r5: \<open>takeWhile is_id_char (''a.b'' @ ''">'') = ''a''\<close>
    by (simp add: is_id_char_def)
  note agree = extractConfirmationToken_pattern_agreement
                 [THEN conjunct2, THEN conjunct2, THEN conjunct2, THEN conjunct2, THEN mp]
  show ?thesis
    using tok del o1 o2
      agree [of "''t0K''" \<open>''&id=1">''\<close> \<open>''<a href="x?a=b;''\<close>, OF tok(1), THEN conjunct1]
      agree [of "''t0K''" \<open>''&id=1">''\<close> \<open>''<a href="x?a=b''\<close>, OF tok(1), THEN conjunct2, THEN conjunct1]
      o3 agree [of "''t0K''" \<open>''>''\<close> \<open>''<input ''\<close>, OF tok(1), THEN conjunct2, THEN conjunct2, THEN conjunct1]
      o4 agree [of "''t0K''" \<open>''}''\<close> \<open>''{''\<close>, OF tok(1), THEN conjunct2, THEN conjunct2, THEN conjunct2]
      o5 r5 extractConfirmationToken_pattern_agreement
        [of "''a.b''" \<open>''">''\<close> \<open>''<a href="x?''\<close>, THEN conjunct1]
    by simp
qed

text \<open>
  C7 as stated fails for a token that has a character outside \<open>[a-zA-Z0-9_-]\<close>: the
  page whose only confirmation pattern is \<open>confirm=a.b\<close> yields \<open>a\<close>, and the page
  whose only confirmation pattern is \<open>"confirm":"a.b"\<close> yields \<open>a.b\<close>.
\<close>

theorem extractConfirmationToken_patterns_disagree:
  \<open>token_occurrences ''confirm=a.b'' = [(0, 0)] \<and>
   extractConfirmationToken ''confirm=a.b'' = Some ''a'' \<and>
   token_occurrences ''"confirm":"a.b"'' = [(3, 0)] \<and>
   extractConfirmationToken ''"confirm":"a.b"'' = Some ''a.b''\<close>
  by code_simp

section \<open>Properties of the downloader\<close>



















lemma token_in_page: "extractConfirmationToken ''<a href=/uc?export=download&confirm=t0K&id=x>'' = Some ''t0K''"
  by code_simp

lemma confirm_url_for_token: "generateConfirmationUrl example_id ''t0K'' = Inr example_confirm_url"
  by code_simp



lemma small_file_declares: "declared_length (file_response ''3'' body) = Some 3"
  by (simp add: declared_length_def file_response_def parseInt_def digit_value_def is_space_def)

lemma overflowing_declares: "declared_length overflowing = Some 10"
  by (simp add: declared_length_def overflowing_def file_response_def parseInt_def digit_value_def
        is_space_def)

lemma broken_stream_declares: "declared_length broken_stream = Some 0"
  by (simp add: declared_length_def broken_stream_def parseInt_def digit_value_def is_space_def)




lemma small_limit: "MAX_FILE_SIZE_BYTES small_config = 1048576 / 1000"
  by (simp add: MAX_FILE_SIZE_BYTES_def small_config_def default_config_def)

lemma default_limit: "MAX_FILE_SIZE_BYTES default_config = 52428800"
  by (simp add: MAX_FILE_SIZE_BYTES_def default_config_def)

lemma temp_dirs: "TEMP_DIR default_config = ''/tmp/gdrive''" "TEMP_DIR small_config = ''/tmp/gdrive''"
  by (simp_all add: small_config_def default_config_def)

lemma file_response_not_html: "\<not> is_html (file_response len body)"
  by (simp add: is_html_def file_response_def)

lemma try_direct_failure:
  assumes "axios url (world st) = (res, w')" "fails_directly cfg res = Some err"
  shows "attemptDownload_try self axios lib cfg url fid opts st
         = Some (Inl err, st\<lparr>world := w', requests := requests st @ [url]\<rparr>)"
proof (cases res)
  case (Rejected e)
  then show ?thesis
    using assms by (simp add: attemptDownload_try_def fails_directly_def)
next
  case (Resolved response)
  show ?thesis
  proof (cases "is_html response")
    case True
    have "handleVirusScanPage self response fid opts (st\<lparr>world := w', requests := requests st @ [url]\<rparr>)
          = Some (Inl err, st\<lparr>world := w', requests := requests st @ [url]\<rparr>)"
      using assms(2) Resolved True
      by (auto simp: fails_directly_def handleVirusScanPage_def split: sum.splits option.splits)
    then show ?thesis
      using assms(1) Resolved True by (simp add: attemptDownload_try_def)
  next
    case False
    then obtain n where "declared_length response = Some n" "MAX_FILE_SIZE_BYTES cfg < real_of_int n"
      "err = DeclaredSizeExceedsLimit n"
      using assms(2) Resolved
      by (auto simp: fails_directly_def split: option.splits if_splits)
    then show ?thesis
      using assms(1) Resolved False by (simp add: attemptDownload_try_def)
  qed
qed


lemma generateUniqueFilePath_effects:
  assumes "generateUniqueFilePath lib cfg name st = Some (path, st2)"
  shows "requests st2 = requests st \<and> sleeps st2 = sleeps st \<and>
         fs_calls st2 = fs_calls st @ [EnsureDir (TEMP_DIR cfg)]"
  using assms by (auto simp: generateUniqueFilePath_def Let_def split: option.splits prod.splits)

lemma try_stream:
  assumes "axios url (world st) = (Resolved response, w')" "\<not> is_html response"
    "\<And>m. declared_length response = Some m \<Longrightarrow> real_of_int m \<le> MAX_FILE_SIZE_BYTES cfg"
    "generateUniqueFilePath lib cfg (file_name_for lib response fid)
       (st\<lparr>world := w', requests := requests st @ [url]\<rparr>) = Some (path, st2)"
  shows "attemptDownload_try self axios lib cfg url fid opts st
         = (case streamToFile cfg (data response) path (fs_calls st2) of
              (Inl e, calls) \<Rightarrow> Some (Inl e, st2\<lparr>fs_calls := calls\<rparr>)
            | (Inr nbytes, calls) \<Rightarrow>
                Some (Inr \<lparr> filePath = path, fileName = file_name_for lib response fid,
                            fileSize = nbytes,
                            contentType = (case headers response ''content-type'' of
                                             None \<Rightarrow> ''application/octet-stream''
                                           | Some ct \<Rightarrow> if ct = [] then ''application/octet-stream'' else ct) \<rparr>,
                      st2\<lparr>fs_calls := calls\<rparr>))"
proof -
  have no: "\<not> (case declared_length response of None \<Rightarrow> False
                 | Some n \<Rightarrow> MAX_FILE_SIZE_BYTES cfg < real_of_int n)"
    using assms(3) by (cases "declared_length response") (auto simp: not_less)
  show ?thesis
    using assms(1,2,4) no
    by (simp add: attemptDownload_try_def Let_def split: prod.splits sum.splits)
qed

lemma dl_loop_success:
  assumes "attempt \<le> maxR"
    "attemptDownload_try self axios lib cfg url fid opts st = Some (Inr result, st')"
  shows "attemptDownload_loop self axios lib cfg url fid opts maxR attempt lastError st
         = Some (Inr result, st')"
  using assms by (subst attemptDownload_loop.simps) simp

lemma dl_loop_retry:
  assumes "attempt < maxR"
    "attemptDownload_try self axios lib cfg url fid opts st = Some (Inl err, st')"
  shows "attemptDownload_loop self axios lib cfg url fid opts maxR attempt lastError st
         = attemptDownload_loop self axios lib cfg url fid opts maxR (Suc attempt) (Some err)
             (st'\<lparr>sleeps := sleeps st' @ [backoff attempt]\<rparr>)"
  using assms by (subst attemptDownload_loop.simps) simp

lemma dl_loop_give_up:
  assumes "attemptDownload_try self axios lib cfg url fid opts st = Some (Inl err, st')"
  shows "attemptDownload_loop self axios lib cfg url fid opts maxR maxR lastError st
         = Some (Inl err, st')"
proof -
  have "attemptDownload_loop self axios lib cfg url fid opts maxR maxR lastError st
        = attemptDownload_loop self axios lib cfg url fid opts maxR (Suc maxR) (Some err) st'"
    using assms by (subst attemptDownload_loop.simps) simp
  also have "\<dots> = Some (Inl err, st')"
    by (subst attemptDownload_loop.simps) simp
  finally show ?thesis .
qed

lemma loop_all_direct_failures:
  assumes "rs \<noteq> []" "attempt + length rs = Suc maxR"
    "\<forall>r\<in>set rs. fails_directly cfg r \<noteq> None"
    "fails_directly cfg (last rs) = Some err"
    "world st = rs @ rest"
  shows "attemptDownload_loop self scripted_axios lib cfg url fid opts maxR attempt lastError st
         = Some (Inl err,
                 st\<lparr>world := rest, requests := requests st @ replicate (length rs) url,
                    sleeps := sleeps st @ map backoff [attempt ..< maxR]\<rparr>)"
  using assms
proof (induction rs arbitrary: attempt lastError st)
  case Nil
  then show ?case by simp
next
  case (Cons r rs)
  obtain e where e: "fails_directly cfg r = Some e" using Cons.prems(3) by auto
  have ax: "scripted_axios url (world st) = (r, rs @ rest)"
    using Cons.prems(5) by (simp add: scripted_axios_def)
  let ?st1 = "st\<lparr>world := rs @ rest, requests := requests st @ [url]\<rparr>"
  have tr: "attemptDownload_try self scripted_axios lib cfg url fid opts st = Some (Inl e, ?st1)"
    by (rule try_direct_failure [where axios = scripted_axios, OF ax e])
  show ?case
  proof (cases "rs = []")
    case True
    then have a: "attempt = maxR" using Cons.prems(2) by simp
    have "e = err" using Cons.prems(4) e True by simp
    then show ?thesis
      unfolding a using dl_loop_give_up [OF tr, of maxR lastError] True by simp
  next
    case False
    then have lt: "attempt < maxR" using Cons.prems(2) by (cases rs) auto
    let ?st2 = "?st1\<lparr>sleeps := sleeps ?st1 @ [backoff attempt]\<rparr>"
    have step: "attemptDownload_loop self scripted_axios lib cfg url fid opts maxR attempt lastError st
                = attemptDownload_loop self scripted_axios lib cfg url fid opts maxR (Suc attempt)
                    (Some e) ?st2"
      by (rule dl_loop_retry [OF lt tr])
    have ih: "attemptDownload_loop self scripted_axios lib cfg url fid opts maxR (Suc attempt) (Some e) ?st2
              = Some (Inl err,
                 ?st2\<lparr>world := rest, requests := requests ?st2 @ replicate (length rs) url,
                      sleeps := sleeps ?st2 @ map backoff [Suc attempt ..< maxR]\<rparr>)"
    proof (rule Cons.IH [OF False])
      show "Suc attempt + length rs = Suc maxR" using Cons.prems(2) by simp
      show "\<forall>r\<in>set rs. fails_directly cfg r \<noteq> None" using Cons.prems(3) by simp
      show "fails_directly cfg (last rs) = Some err" using Cons.prems(4) False by simp
      show "world ?st2 = rs @ rest" by simp
    qed
    have upt: "[attempt ..< maxR] = attempt # [Suc attempt ..< maxR]"
      using lt by (simp add: upt_conv_Cons)
    show ?thesis
      unfolding step ih by (cases st) (simp add: upt replicate_append_same)
  qed
qed

lemma attempt_fails_iff:
  "attempt_fails attempt st k \<longleftrightarrow>
     (\<exists>e st'. attempt (state_before_attempt attempt st k) = Some (Inl e, st'))"
  by (auto simp: attempt_fails_def attempt_outcome_def split: option.splits sum.splits)

lemma loop_after_failures:
  assumes "k < maxR"
    "\<forall>i<k. attempt_fails (attemptDownload_try self axios lib cfg url fid opts) st i"
  shows "\<exists>lastError.
           attemptDownload_loop self axios lib cfg url fid opts maxR 1 None st
           = attemptDownload_loop self axios lib cfg url fid opts maxR (Suc k) lastError
               (state_before_attempt (attemptDownload_try self axios lib cfg url fid opts) st k)"
  using assms
proof (induction k)
  case 0
  show ?case by (rule exI [of _ None]) simp
next
  case (Suc k)
  let ?T = "attemptDownload_try self axios lib cfg url fid opts"
  have lt: "Suc k < maxR" using Suc.prems(1) by simp
  obtain lastError where ih:
    "attemptDownload_loop self axios lib cfg url fid opts maxR 1 None st
     = attemptDownload_loop self axios lib cfg url fid opts maxR (Suc k) lastError
         (state_before_attempt ?T st k)"
    using Suc.IH Suc.prems by auto
  obtain e st' where f: "?T (state_before_attempt ?T st k) = Some (Inl e, st')"
    using Suc.prems(2) attempt_fails_iff [of ?T st k] by auto
  have next_state: "state_before_attempt ?T st (Suc k) = st'\<lparr>sleeps := sleeps st' @ [backoff (Suc k)]\<rparr>"
    using f by simp
  have "attemptDownload_loop self axios lib cfg url fid opts maxR (Suc k) lastError
          (state_before_attempt ?T st k)
        = attemptDownload_loop self axios lib cfg url fid opts maxR (Suc (Suc k)) (Some e)
            (st'\<lparr>sleeps := sleeps st' @ [backoff (Suc k)]\<rparr>)"
    by (rule dl_loop_retry [OF lt f])
  then show ?case
    unfolding ih next_state by (intro exI [of _ "Some e"])
qed

lemma max_attempts_pos: "0 < max_attempts_of opts"
  by (simp add: max_attempts_of_def split: option.splits)

lemma attemptDownload_nested:
  "attemptDownload depth axios lib cfg
   = attemptDownload_with (nested_attemptDownload depth axios lib cfg) axios lib cfg"
  by (cases depth) (simp_all add: nested_attemptDownload_def)

lemma startsWith_append: "startsWith (pre @ rest) pre"
  by (simp add: startsWith_def)

lemma endsWith_append: "endsWith (rest @ suf) suf"
  by (simp add: endsWith_def)

lemma confirmation_url:
  assumes "generateConfirmationUrl fid token = Inr confirmUrl"
  shows "is_confirmation_url fid confirmUrl"
proof -
  let ?pre = "''https://drive.google.com/uc?export=download&confirm=''"
  have u: "confirmUrl = ?pre @ token @ ''&id='' @ fid"
    using assms by (simp add: generateConfirmationUrl_def split: if_splits)
  have "startsWith (?pre @ (token @ ''&id='' @ fid)) ?pre" by (rule startsWith_append)
  moreover have "endsWith ((?pre @ token) @ (''&id='' @ fid)) (''&id='' @ fid)"
    by (rule endsWith_append)
  ultimately show ?thesis unfolding is_confirmation_url_def u by simp
qed

lemma handleVirusScanPage_cases:
  assumes "handleVirusScanPage self response fid opts st = Some (out, st')"
  shows "st' = st \<or>
         (\<exists>token confirmUrl out'. generateConfirmationUrl fid token = Inr confirmUrl \<and>
            self confirmUrl fid (opts\<lparr>dl_maxRetries := Some 1\<rparr>) st = Some (out', st'))"
  using assms
  by (auto simp: handleVirusScanPage_def split: sum.splits option.splits prod.splits)

lemma try_quiet:
  assumes q: "quiet self"
    and t: "attemptDownload_try self axios lib cfg url fid opts st = Some (out, st')"
  shows "sleeps st' = sleeps st \<and>
         (\<exists>rs. requests st' = requests st @ url # rs \<and> list_all (is_confirmation_url fid) rs)"
proof -
  obtain res w' where ax: "axios url (world st) = (res, w')" by (cases "axios url (world st)")
  let ?st1 = "st\<lparr>world := w', requests := requests st @ [url]\<rparr>"
  have direct: ?thesis if "requests st' = requests ?st1" "sleeps st' = sleeps ?st1"
    using that by simp
  show ?thesis
  proof (cases res)
    case (Rejected e)
    then have "st' = ?st1" using t ax by (simp add: attemptDownload_try_def)
    then show ?thesis by (intro direct) simp_all
  next
    case (Resolved response)
    show ?thesis
    proof (cases "is_html response")
      case True
      then have h: "handleVirusScanPage self response fid opts ?st1 = Some (out, st')"
        using t ax Resolved by (simp add: attemptDownload_try_def)
      from handleVirusScanPage_cases [OF h] show ?thesis
      proof
        assume "st' = ?st1"
        then show ?thesis by (intro direct) simp_all
      next
        assume "\<exists>token confirmUrl out'. generateConfirmationUrl fid token = Inr confirmUrl \<and>
            self confirmUrl fid (opts\<lparr>dl_maxRetries := Some 1\<rparr>) ?st1 = Some (out', st')"
        then obtain token confirmUrl out' where
          u: "generateConfirmationUrl fid token = Inr confirmUrl"
          and c: "self confirmUrl fid (opts\<lparr>dl_maxRetries := Some 1\<rparr>) ?st1 = Some (out', st')"
          by blast
        from q c obtain rs where s: "sleeps st' = sleeps ?st1"
          and r: "requests st' = requests ?st1 @ confirmUrl # rs"
          and l: "list_all (is_confirmation_url fid) rs"
          unfolding quiet_def by blast
        have "requests st' = requests st @ url # (confirmUrl # rs)" using r by simp
        moreover have "list_all (is_confirmation_url fid) (confirmUrl # rs)"
          using l confirmation_url [OF u] by simp
        ultimately show ?thesis using s by auto
      qed
    next
      case False
      show ?thesis
      proof (cases "case declared_length response of None \<Rightarrow> False
                    | Some n \<Rightarrow> MAX_FILE_SIZE_BYTES cfg < real_of_int n")
        case True
        then have "st' = ?st1"
          using t ax Resolved False by (auto simp: attemptDownload_try_def Let_def)
        then show ?thesis by (intro direct) simp_all
      next
        case big: False
        then obtain path st2 calls where
          g: "generateUniqueFilePath lib cfg (file_name_for lib response fid) ?st1 = Some (path, st2)"
          and e: "st' = st2\<lparr>fs_calls := calls\<rparr>"
          using t ax Resolved False
          by (auto simp: attemptDownload_try_def Let_def split: option.splits prod.splits sum.splits)
        have "requests st' = requests ?st1" "sleeps st' = sleeps ?st1"
          using generateUniqueFilePath_effects [OF g] e by simp_all
        then show ?thesis by (rule direct)
      qed
    qed
  qed
qed

lemma try_effects:
  assumes "axios url (world st) = (answer, w')" "\<not> is_html_result answer"
    "attemptDownload_try self axios lib cfg url fid opts st = Some (out, st')"
  shows "requests st' = requests st @ [url] \<and> sleeps st' = sleeps st"
proof (cases answer)
  case (Rejected e)
  then show ?thesis
    using assms(1,3) by (auto simp: attemptDownload_try_def)
next
  case (Resolved response)
  then have nh: "\<not> is_html response" using assms(2) by (simp add: is_html_result_def)
  show ?thesis
  proof (cases "case declared_length response of None \<Rightarrow> False
                | Some n \<Rightarrow> MAX_FILE_SIZE_BYTES cfg < real_of_int n")
    case True
    then show ?thesis
      using assms(1,3) Resolved nh by (auto simp: attemptDownload_try_def Let_def)
  next
    case False
    then show ?thesis
      using assms(1,3) Resolved nh
      by (auto simp: attemptDownload_try_def Let_def dest: generateUniqueFilePath_effects
               split: option.splits prod.splits sum.splits)
  qed
qed

lemma single_attempt:
  "attemptDownload_loop self axios lib cfg url fid opts 1 1 None st
   = attemptDownload_try self axios lib cfg url fid opts st"
proof (cases "attemptDownload_try self axios lib cfg url fid opts st")
  case None
  then show ?thesis by (subst attemptDownload_loop.simps) simp
next
  case (Some outcome)
  obtain r st1 where o: "outcome = (r, st1)" by (cases outcome)
  show ?thesis
  proof (cases r)
    case (Inl err)
    then show ?thesis
      using dl_loop_give_up [of self axios lib cfg url fid opts st err st1 1 None] Some o by simp
  next
    case (Inr res)
    then show ?thesis
      using dl_loop_success [of 1 1 self axios lib cfg url fid opts st res st1 None] Some o by simp
  qed
qed

lemma nested_attempt:
  "attemptDownload depth axios lib cfg url fid (opts\<lparr>dl_maxRetries := Some 1\<rparr>) st
   = attemptDownload_try (nested_attemptDownload depth axios lib cfg)
       axios lib cfg url fid (opts\<lparr>dl_maxRetries := Some 1\<rparr>) st"
proof -
  have m: "max_attempts_of (opts\<lparr>dl_maxRetries := Some 1\<rparr>) = 1"
    by (simp add: max_attempts_of_def)
  show ?thesis
    by (cases depth) (simp_all only: attemptDownload.simps attemptDownload_with_def m single_attempt
                         nat.case nested_attemptDownload_def)
qed

lemma handle_page_unfold:
  assumes "streamToString (data page) = Inr html" "extractConfirmationToken html = Some token"
    "generateConfirmationUrl fid token = Inr confirmUrl"
  shows "handleVirusScanPage (attemptDownload depth axios lib cfg) page fid opts st
      = (case attemptDownload_try
                (nested_attemptDownload depth axios lib cfg)
                axios lib cfg confirmUrl fid (opts\<lparr>dl_maxRetries := Some 1\<rparr>) st of
           None \<Rightarrow> None
         | Some (Inl e, st') \<Rightarrow> Some (Inl (VirusScanPageFailed e), st')
         | Some (Inr result, st') \<Rightarrow> Some (Inr result, st'))"
  by (simp only: handleVirusScanPage_def assms sum.case option.case nested_attempt)

lemma handle_page_failure:
  assumes "streamToString (data page) = Inr html" "extractConfirmationToken html = Some token"
    "generateConfirmationUrl fid token = Inr confirmUrl"
    "axios confirmUrl (world st) = (answer, w')" "fails_directly cfg answer = Some err"
  shows "handleVirusScanPage (attemptDownload depth axios lib cfg) page fid opts st
          = Some (Inl (VirusScanPageFailed err),
                  st\<lparr>world := w', requests := requests st @ [confirmUrl]\<rparr>)"
proof -
  have "attemptDownload_try
          (nested_attemptDownload depth axios lib cfg)
          axios lib cfg confirmUrl fid (opts\<lparr>dl_maxRetries := Some 1\<rparr>) st
        = Some (Inl err, st\<lparr>world := w', requests := requests st @ [confirmUrl]\<rparr>)"
    by (rule try_direct_failure [where axios = axios, OF assms(4,5)])
  then show ?thesis
    unfolding handle_page_unfold [OF assms(1-3)] by simp
qed

lemma quiet_none: "quiet (\<lambda>_ _ _ _. None)"
  by (simp add: quiet_def)

lemma with_quiet:
  assumes "quiet self"
  shows "quiet (attemptDownload_with self axios lib cfg)"
  unfolding quiet_def
proof (intro allI impI)
  fix u fid opts st out st'
  assume "attemptDownload_with self axios lib cfg u fid (opts\<lparr>dl_maxRetries := Some 1\<rparr>) st
            = Some (out, st')"
  moreover have "max_attempts_of (opts\<lparr>dl_maxRetries := Some 1\<rparr>) = 1"
    by (simp add: max_attempts_of_def)
  ultimately have "attemptDownload_try self axios lib cfg u fid (opts\<lparr>dl_maxRetries := Some 1\<rparr>) st
                     = Some (out, st')"
    by (simp only: attemptDownload_with_def single_attempt)
  then show "sleeps st' = sleeps st \<and>
       (\<exists>rs. requests st' = requests st @ u # rs \<and> list_all (is_confirmation_url fid) rs)"
    by (rule try_quiet [OF assms])
qed

lemma attemptDownload_quiet: "quiet (attemptDownload depth axios lib cfg)"
  by (induction depth) (simp_all add: quiet_none with_quiet)

lemma nested_quiet: "quiet (nested_attemptDownload depth axios lib cfg)"
  by (cases depth) (simp_all add: nested_attemptDownload_def quiet_none attemptDownload_quiet)

lemma name_for_file:
  assumes "headers response ''content-disposition'' = None"
  shows "file_name_for plain_libs response example_id = example_file_name"
  using assms
  by (simp add: file_name_for_def extractFileName_def example_id_def example_file_name_def)

lemma path_for_file:
  assumes "TEMP_DIR cfg = ''/tmp/gdrive''"
  shows "generateUniqueFilePath plain_libs cfg example_file_name st
         = Some (example_path, st\<lparr>fs_calls := fs_calls st @ [EnsureDir ''/tmp/gdrive'']\<rparr>)"
  using assms
  by (cases st)
     (simp add: generateUniqueFilePath_def uniquePathLoop.simps plain_libs_def
        example_file_name_def example_path_def)

lemma small_download:
  assumes "3 \<le> MAX_FILE_SIZE_BYTES cfg"
  shows "streamToFile cfg (data (file_response len [''abc''])) path calls
         = (Inr 3, calls @ [CreateWriteStream path, WriteChunk path ''abc'', EndWriteStream path])"
  using assms by (simp add: streamToFile_def file_response_def on_data_def Let_def)

lemma overflow_stream:
  "streamToFile small_config (data overflowing) path calls
   = (Inl StreamedSizeExceedsLimit,
      calls @ [CreateWriteStream path, WriteChunk path (replicate 600 (CHR ''x'')),
               DestroyWriteStream path, Unlink path, EndWriteStream path])"
  by (simp add: streamToFile_def overflowing_def file_response_def on_data_def Let_def settle_def
        small_limit)

lemma broken_download:
  assumes "3 \<le> MAX_FILE_SIZE_BYTES cfg"
  shows "streamToFile cfg (data broken_stream) path calls
         = (Inl (TransportFailure ConnectionRefused),
            calls @ [CreateWriteStream path, WriteChunk path ''abc'', DestroyWriteStream path,
                     Unlink path])"
  using assms by (simp add: streamToFile_def broken_stream_def on_data_def Let_def)

lemma try_file:
  assumes w: "world st = Resolved response # rest" and nh: "\<not> is_html response"
    and d: "declared_length response = Some n" "real_of_int n \<le> MAX_FILE_SIZE_BYTES cfg"
    and cd: "headers response ''content-disposition'' = None"
    and t: "TEMP_DIR cfg = ''/tmp/gdrive''"
  shows "attemptDownload_try self scripted_axios plain_libs cfg url example_id opts st
         = (case streamToFile cfg (data response) example_path
                   (fs_calls st @ [EnsureDir ''/tmp/gdrive'']) of
              (Inl e, calls) \<Rightarrow>
                Some (Inl e, st\<lparr>world := rest, requests := requests st @ [url], fs_calls := calls\<rparr>)
            | (Inr nbytes, calls) \<Rightarrow>
                Some (Inr \<lparr> filePath = example_path, fileName = example_file_name,
                            fileSize = nbytes,
                            contentType = (case headers response ''content-type'' of
                                             None \<Rightarrow> ''application/octet-stream''
                                           | Some ct \<Rightarrow> if ct = [] then ''application/octet-stream'' else ct) \<rparr>,
                      st\<lparr>world := rest, requests := requests st @ [url], fs_calls := calls\<rparr>))"
proof -
  have ax: "scripted_axios url (world st) = (Resolved response, rest)"
    using w by (simp add: scripted_axios_def)
  have le: "real_of_int m \<le> MAX_FILE_SIZE_BYTES cfg" if "declared_length response = Some m" for m
    using that d by simp
  let ?st1 = "st\<lparr>world := rest, requests := requests st @ [url]\<rparr>"
  have p: "generateUniqueFilePath plain_libs cfg (file_name_for plain_libs response example_id) ?st1
           = Some (example_path, ?st1\<lparr>fs_calls := fs_calls ?st1 @ [EnsureDir ''/tmp/gdrive'']\<rparr>)"
    unfolding name_for_file [OF cd] by (rule path_for_file [OF t])
  have "attemptDownload_try self scripted_axios plain_libs cfg url example_id opts st
        = (case streamToFile cfg (data response) example_path
                  (fs_calls (?st1\<lparr>fs_calls := fs_calls ?st1 @ [EnsureDir ''/tmp/gdrive'']\<rparr>)) of
             (Inl e, calls) \<Rightarrow>
               Some (Inl e, ?st1\<lparr>fs_calls := fs_calls ?st1 @ [EnsureDir ''/tmp/gdrive'']\<rparr>
                              \<lparr>fs_calls := calls\<rparr>)
           | (Inr nbytes, calls) \<Rightarrow>
               Some (Inr \<lparr> filePath = example_path,
                           fileName = file_name_for plain_libs response example_id,
                           fileSize = nbytes,
                           contentType = (case headers response ''content-type'' of
                                            None \<Rightarrow> ''application/octet-stream''
                                          | Some ct \<Rightarrow> if ct = [] then ''application/octet-stream'' else ct) \<rparr>,
                     ?st1\<lparr>fs_calls := fs_calls ?st1 @ [EnsureDir ''/tmp/gdrive'']\<rparr>
                        \<lparr>fs_calls := calls\<rparr>))"
    by (rule try_stream [where axios = scripted_axios, OF ax nh le p])
  then show ?thesis
    by (cases "streamToFile cfg (data response) example_path
                 (fs_calls st @ [EnsureDir ''/tmp/gdrive''])")
       (auto simp: name_for_file [OF cd] split: sum.splits)
qed

lemma try_small_file:
  assumes "world st = Resolved (file_response ''3'' [''abc'']) # rest"
    "TEMP_DIR cfg = ''/tmp/gdrive''" "3 \<le> MAX_FILE_SIZE_BYTES cfg"
  shows "attemptDownload_try self scripted_axios plain_libs cfg url example_id opts st
         = Some (Inr \<lparr> filePath = example_path, fileName = example_file_name, fileSize = 3,
                      contentType = ''application/pdf'' \<rparr>,
                 st\<lparr>world := rest, requests := requests st @ [url],
                    fs_calls := fs_calls st @
                      [EnsureDir ''/tmp/gdrive'', CreateWriteStream example_path,
                       WriteChunk example_path ''abc'', EndWriteStream example_path]\<rparr>)"
proof -
  have cd: "headers (file_response ''3'' [''abc'']) ''content-disposition'' = None"
    by (simp add: file_response_def)
  have le: "real_of_int 3 \<le> MAX_FILE_SIZE_BYTES cfg" using assms(3) by simp
  show ?thesis
    unfolding try_file [OF assms(1) file_response_not_html small_file_declares le cd assms(2)]
    by (simp add: small_download [OF assms(3)]) (simp add: file_response_def)
qed

lemma try_overflowing:
  assumes "world st = Resolved overflowing # rest"
  shows "attemptDownload_try self scripted_axios plain_libs small_config url example_id opts st
         = Some (Inl StreamedSizeExceedsLimit,
                 st\<lparr>world := rest, requests := requests st @ [url],
                    fs_calls := fs_calls st @
                      [EnsureDir ''/tmp/gdrive'', CreateWriteStream example_path,
                       WriteChunk example_path (replicate 600 (CHR ''x'')),
                       DestroyWriteStream example_path, Unlink example_path,
                       EndWriteStream example_path]\<rparr>)"
proof -
  have cd: "headers overflowing ''content-disposition'' = None"
    by (simp add: overflowing_def file_response_def)
  have nh: "\<not> is_html overflowing" by (simp add: overflowing_def file_response_not_html)
  have le: "real_of_int 10 \<le> MAX_FILE_SIZE_BYTES small_config" by (simp add: small_limit)
  show ?thesis
    unfolding try_file [OF assms nh overflowing_declares le cd temp_dirs(2)]
    by (simp add: overflow_stream)
qed

lemma try_broken_stream:
  assumes "world st = Resolved broken_stream # rest"
    "TEMP_DIR cfg = ''/tmp/gdrive''" "3 \<le> MAX_FILE_SIZE_BYTES cfg"
  shows "attemptDownload_try self scripted_axios plain_libs cfg url example_id opts st
         = Some (Inl (TransportFailure ConnectionRefused),
                 st\<lparr>world := rest, requests := requests st @ [url],
                    fs_calls := fs_calls st @
                      [EnsureDir ''/tmp/gdrive'', CreateWriteStream example_path,
                       WriteChunk example_path ''abc'', DestroyWriteStream example_path,
                       Unlink example_path]\<rparr>)"
proof -
  have cd: "headers broken_stream ''content-disposition'' = None"
    by (simp add: broken_stream_def)
  have nh: "\<not> is_html broken_stream" by (simp add: broken_stream_def is_html_def)
  have le: "real_of_int 0 \<le> MAX_FILE_SIZE_BYTES cfg" using assms(3) by simp
  show ?thesis
    unfolding try_file [OF assms(1) nh broken_stream_declares le cd assms(2)]
    by (simp add: broken_download [OF assms(3)])
qed

lemma oversized_fails:
  "fails_directly default_config oversized = Some (DeclaredSizeExceedsLimit 60000000)"
  by (simp add: fails_directly_def oversized_def file_response_def is_html_def declared_length_def
        parseInt_def digit_value_def is_space_def MAX_FILE_SIZE_BYTES_def default_config_def)

lemma oversized_fails_small:
  "fails_directly small_config oversized = Some (DeclaredSizeExceedsLimit 60000000)"
  by (simp add: fails_directly_def oversized_def file_response_def is_html_def declared_length_def
        parseInt_def digit_value_def is_space_def MAX_FILE_SIZE_BYTES_def small_config_def
        default_config_def)

lemma no_token: "extractConfirmationToken ''<html>Quota exceeded</html>'' = None"
  by code_simp

lemma html_page_is_html: "is_html (html_page body)"
  by (simp add: is_html_def html_page_def)

lemma page_without_token_fails:
  "fails_directly default_config page_without_token = Some (VirusScanPageFailed CouldNotExtractToken)"
  by (simp add: fails_directly_def page_without_token_def html_page_is_html no_token)
     (simp add: html_page_def streamToString_def no_token)

lemma example_id_valid: "isValidFileId example_id"
  by code_simp

lemma default_attempts: "max_attempts_of default_options = 3"
  by (simp add: max_attempts_of_def default_options_def)

lemma token_page_facts:
  "is_html token_page"
  "streamToString (data token_page) = Inr ''<a href=/uc?export=download&confirm=t0K&id=x>''"
  by (simp_all add: token_page_def html_page_is_html) (simp add: html_page_def streamToString_def)

lemma not_html_Rejected: "\<not> is_html_result (Rejected e)"
  by (simp add: is_html_result_def)

lemma Rejected_fails: "fails_directly cfg (Rejected e) = Some (TransportFailure e)"
  by (simp add: fails_directly_def)

lemma confirmation_then_failure:
  assumes "world st = Resolved token_page # answer # rest"
    "fails_directly cfg answer = Some e"
  shows "attemptDownload_try (attemptDownload 0 scripted_axios plain_libs cfg)
           scripted_axios plain_libs cfg example_url example_id opts st
         = Some (Inl (VirusScanPageFailed e),
                 st\<lparr>world := rest, requests := requests st @ [example_url, example_confirm_url]\<rparr>)"
proof -
  let ?st1 = "st\<lparr>world := answer # rest, requests := requests st @ [example_url]\<rparr>"
  have ax1: "scripted_axios example_url (world st) = (Resolved token_page, answer # rest)"
    using assms(1) by (simp add: scripted_axios_def)
  have ax2: "scripted_axios example_confirm_url (world ?st1) = (answer, rest)"
    by (simp add: scripted_axios_def)
  have "attemptDownload_try (attemptDownload 0 scripted_axios plain_libs cfg)
          scripted_axios plain_libs cfg example_url example_id opts st
        = handleVirusScanPage (attemptDownload 0 scripted_axios plain_libs cfg)
            token_page example_id opts ?st1"
    using ax1 token_page_facts(1) by (simp add: attemptDownload_try_def)
  also have "\<dots> = Some (Inl (VirusScanPageFailed e),
                  ?st1\<lparr>world := rest, requests := requests ?st1 @ [example_confirm_url]\<rparr>)"
    by (rule handle_page_failure [where axios = scripted_axios, OF token_page_facts(2) token_in_page confirm_url_for_token ax2 assms(2)])
  finally show ?thesis by simp
qed

text \<open>
  C2, as the code has it. The retry loop of \<open>attemptDownload\<close> does not look at the kind
  of failure: whatever the errors of the attempts that fail, be it a rejected request,
  a declared or a streamed size above the limit (FileTooLarge), a confirmation page
  without a token (ConfirmationTokenNotFound), a stream that breaks or a confirmed
  download that fails, each failed attempt that is not the last of the \<open>maxRetries\<close>
  is followed, after its backoff delay, by another attempt. The run returns the
  result of the first attempt that succeeds, and when all the \<open>maxRetries\<close> attempts
  fail it throws the error of the last one. Every attempt begins by requesting the
  URL again. A download of a valid file identifier is such a run on its download
  URL; only an invalid file identifier, which \<open>downloadGoogleDriveFile\<close> rejects before
  the loop, is followed by no attempt at all: nothing is requested.
\<close>

theorem every_failed_attempt_is_retried:
  "(let attempt = attemptDownload_try (nested_attemptDownload depth axios lib cfg)
                    axios lib cfg url fid opts
    in (k < max_attempts_of opts \<longrightarrow> (\<forall>i<k. attempt_fails attempt st i) \<longrightarrow>
          attempt (state_before_attempt attempt st k) = Some (Inr result, st') \<longrightarrow>
            attemptDownload depth axios lib cfg url fid opts st = Some (Inr result, st')) \<and>
       ((\<forall>i<max_attempts_of opts. attempt_fails attempt st i) \<longrightarrow>
          attempt (state_before_attempt attempt st (max_attempts_of opts - 1)) = Some (Inl err, st') \<longrightarrow>
            attemptDownload depth axios lib cfg url fid opts st = Some (Inl err, st')) \<and>
       (attempt st0 = Some (out, st1) \<longrightarrow> (\<exists>rs. requests st1 = requests st0 @ url # rs))) \<and>
   (isValidFileId fid1 \<longrightarrow>
      downloadGoogleDriveFile depth axios lib cfg fid1 opts st
        = attemptDownload depth axios lib cfg
            (''https://drive.google.com/uc?export=download&id='' @ fid1) fid1 opts st) \<and>
   (\<not> isValidFileId fid2 \<longrightarrow>
      downloadGoogleDriveFile depth axios lib cfg fid2 opts st2
        = Some (Inl (UrlError (Error ''Invalid file ID provided'')), st2))"
proof -
  let ?self = "nested_attemptDownload depth axios lib cfg"
  let ?T = "attemptDownload_try ?self axios lib cfg url fid opts"
  let ?M = "max_attempts_of opts"
  have run: "attemptDownload depth axios lib cfg url fid opts st
             = attemptDownload_loop ?self axios lib cfg url fid opts ?M 1 None st"
    by (simp only: attemptDownload_nested attemptDownload_with_def)
  have success: "attemptDownload depth axios lib cfg url fid opts st = Some (Inr result, st')"
    if k: "k < ?M" and f: "\<forall>i<k. attempt_fails ?T st i"
      and ok: "?T (state_before_attempt ?T st k) = Some (Inr result, st')"
  proof -
    obtain lastError where
      "attemptDownload_loop ?self axios lib cfg url fid opts ?M 1 None st
       = attemptDownload_loop ?self axios lib cfg url fid opts ?M (Suc k) lastError
           (state_before_attempt ?T st k)"
      using loop_after_failures [OF k f] by blast
    moreover have "attemptDownload_loop ?self axios lib cfg url fid opts ?M (Suc k) lastError
           (state_before_attempt ?T st k) = Some (Inr result, st')"
      by (rule dl_loop_success [OF _ ok]) (use k in simp)
    ultimately show ?thesis unfolding run by simp
  qed
  have failure: "attemptDownload depth axios lib cfg url fid opts st = Some (Inl err, st')"
    if f: "\<forall>i<?M. attempt_fails ?T st i"
      and bad: "?T (state_before_attempt ?T st (?M - 1)) = Some (Inl err, st')"
  proof -
    have k: "?M - 1 < ?M" using max_attempts_pos [of opts] by simp
    have f': "\<forall>i<?M - 1. attempt_fails ?T st i" using f by simp
    obtain lastError where
      "attemptDownload_loop ?self axios lib cfg url fid opts ?M 1 None st
       = attemptDownload_loop ?self axios lib cfg url fid opts ?M (Suc (?M - 1)) lastError
           (state_before_attempt ?T st (?M - 1))"
      using loop_after_failures [OF k f'] by blast
    moreover have "Suc (?M - 1) = ?M" using max_attempts_pos [of opts] by simp
    moreover have "attemptDownload_loop ?self axios lib cfg url fid opts ?M ?M lastError
           (state_before_attempt ?T st (?M - 1)) = Some (Inl err, st')"
      by (rule dl_loop_give_up [OF bad])
    ultimately show ?thesis unfolding run by simp
  qed
  have again: "\<exists>rs. requests st1 = requests st0 @ url # rs" if "?T st0 = Some (out, st1)"
    using try_quiet [OF nested_quiet that] by blast
  have valid: "downloadGoogleDriveFile depth axios lib cfg fid1 opts st
        = attemptDownload depth axios lib cfg
            (''https://drive.google.com/uc?export=download&id='' @ fid1) fid1 opts st"
    if v: "isValidFileId fid1"
  proof -
    have "fid1 \<noteq> []" using v by (auto simp: isValidFileId_def)
    moreover have "generateDownloadUrl fid1
                   = Inr (''https://drive.google.com/uc?export=download&id='' @ fid1)"
      using v by (simp only: generateDownloadUrl_def not_True_eq_False if_False)
    ultimately show ?thesis
      by (simp only: downloadGoogleDriveFile_def if_False sum.case)
  qed
  have invalid: "downloadGoogleDriveFile depth axios lib cfg fid2 opts st2
        = Some (Inl (UrlError (Error ''Invalid file ID provided'')), st2)"
    if "\<not> isValidFileId fid2"
    using that by (simp add: downloadGoogleDriveFile_def generateDownloadUrl_def)
  show ?thesis
    unfolding Let_def using success failure again valid invalid by blast
qed

text \<open>
  Two runs with a limit of 1048.576 bytes and the default of three attempts. In the
  first, a file that grows over the limit while it is streamed and a file whose
  stream breaks are followed by a file that arrives. In the second, a confirmed
  download that times out, the file that grows over the limit and the file whose
  stream breaks use up the three attempts.
\<close>

lemma example_download_url: "generateDownloadUrl example_id = Inr example_url"
  by code_simp

lemma example_url_unfold:
  "''https://drive.google.com/uc?export=download&id='' @ example_id = example_url"
  by (simp add: example_id_def example_url_def)

lemma small_limit_3: "3 \<le> MAX_FILE_SIZE_BYTES small_config"
  by (simp add: small_limit)

theorem every_failed_attempt_is_retried_witness:
  "downloadGoogleDriveFile 1 scripted_axios plain_libs small_config example_id default_options
     (start_state [Resolved overflowing, Resolved broken_stream,
                   Resolved (file_response ''3'' [''abc''])])
   = Some (Inr \<lparr> filePath = example_path, fileName = example_file_name, fileSize = 3,
                contentType = ''application/pdf'' \<rparr>,
           \<lparr> world = [], requests = [example_url, example_url, example_url],
             sleeps = [1000, 2000],
             fs_calls =
               [EnsureDir ''/tmp/gdrive'', CreateWriteStream example_path,
                WriteChunk example_path (replicate 600 (CHR ''x'')),
                DestroyWriteStream example_path, Unlink example_path,
                EndWriteStream example_path,
                EnsureDir ''/tmp/gdrive'', CreateWriteStream example_path,
                WriteChunk example_path ''abc'', DestroyWriteStream example_path,
                Unlink example_path,
                EnsureDir ''/tmp/gdrive'', CreateWriteStream example_path,
                WriteChunk example_path ''abc'', EndWriteStream example_path] \<rparr>) \<and>
   map_option (\<lambda>(r, st). (r, world st, requests st, sleeps st))
     (downloadGoogleDriveFile 1 scripted_axios plain_libs small_config example_id default_options
        (start_state [Resolved token_page, Rejected Timeout, Resolved overflowing,
                      Resolved broken_stream, Resolved (file_response ''3'' [''abc''])]))
   = Some (Inl (TransportFailure ConnectionRefused),
           [Resolved (file_response ''3'' [''abc''])],
           [example_url, example_confirm_url, example_url, example_url], [1000, 2000]) \<and>
   downloadGoogleDriveFile 1 scripted_axios plain_libs small_config ''short'' default_options
     (start_state [oversized])
   = Some (Inl (UrlError (Error ''Invalid file ID provided'')), start_state [oversized])"
proof -
  let ?T = "attemptDownload_try (nested_attemptDownload 1 scripted_axios plain_libs small_config)
              scripted_axios plain_libs small_config example_url example_id default_options"
  let ?file = "Resolved (file_response ''3'' [''abc''])"
  have T: "?T = attemptDownload_try (attemptDownload 0 scripted_axios plain_libs small_config)
              scripted_axios plain_libs small_config example_url example_id default_options"
    by (simp add: nested_attemptDownload_def)
  note thm1 = every_failed_attempt_is_retried
    [where depth = 1 and axios = scripted_axios and lib = plain_libs and cfg = small_config
       and url = example_url and fid = example_id and opts = default_options
       and ?fid1.0 = example_id and ?fid2.0 = "''short''", unfolded Let_def]
  \<comment> \<open>the first run\<close>
  let ?a0 = "start_state [Resolved overflowing, Resolved broken_stream, ?file]"
  let ?calls1 = "[EnsureDir ''/tmp/gdrive'', CreateWriteStream example_path,
                  WriteChunk example_path (replicate 600 (CHR ''x'')),
                  DestroyWriteStream example_path, Unlink example_path,
                  EndWriteStream example_path]"
  let ?calls2 = "?calls1 @ [EnsureDir ''/tmp/gdrive'', CreateWriteStream example_path,
                  WriteChunk example_path ''abc'', DestroyWriteStream example_path,
                  Unlink example_path]"
  let ?calls3 = "?calls2 @ [EnsureDir ''/tmp/gdrive'', CreateWriteStream example_path,
                  WriteChunk example_path ''abc'', EndWriteStream example_path]"
  let ?a1 = "\<lparr> world = [Resolved broken_stream, ?file], requests = [example_url],
               sleeps = [1000], fs_calls = ?calls1 \<rparr>"
  let ?a2 = "\<lparr> world = [?file], requests = [example_url, example_url],
               sleeps = [1000, 2000], fs_calls = ?calls2 \<rparr>"
  let ?a3 = "\<lparr> world = [], requests = [example_url, example_url, example_url],
               sleeps = [1000, 2000], fs_calls = ?calls3 \<rparr>"
  have a0: "?T ?a0 = Some (Inl StreamedSizeExceedsLimit,
                           \<lparr> world = [Resolved broken_stream, ?file], requests = [example_url],
                             sleeps = [], fs_calls = ?calls1 \<rparr>)"
    unfolding T by (subst try_overflowing [where rest = "[Resolved broken_stream, ?file]"])
                   (simp_all add: start_state_def)
  have sa1: "state_before_attempt ?T ?a0 1 = ?a1"
    using a0 by (simp add: backoff_def)
  have a1: "?T ?a1 = Some (Inl (TransportFailure ConnectionRefused),
                           \<lparr> world = [?file], requests = [example_url, example_url],
                             sleeps = [1000], fs_calls = ?calls2 \<rparr>)"
    unfolding T by (subst try_broken_stream [where rest = "[?file]"])
                   (simp_all add: temp_dirs small_limit_3)
  have sa2: "state_before_attempt ?T ?a0 2 = ?a2"
    using a1 sa1 by (simp add: backoff_def numeral_2_eq_2)
  have a2: "?T ?a2 = Some (Inr \<lparr> filePath = example_path, fileName = example_file_name,
                                 fileSize = 3, contentType = ''application/pdf'' \<rparr>, ?a3)"
    unfolding T by (subst try_small_file [where rest = "[]"])
                   (simp_all add: temp_dirs small_limit_3)
  have fa: "\<forall>i<2. attempt_fails ?T ?a0 i"
  proof (intro allI impI)
    fix i :: nat assume "i < 2"
    then consider "i = 0" | "i = 1" by linarith
    then show "attempt_fails ?T ?a0 i"
    proof cases
      case 1
      then show ?thesis using a0 by (simp add: attempt_fails_iff)
    next
      case 2
      then show ?thesis unfolding attempt_fails_iff using a1 sa1 by simp
    qed
  qed
  have ka: "2 < max_attempts_of default_options" by (simp add: default_attempts)
  have first: "attemptDownload 1 scripted_axios plain_libs small_config example_url example_id
                 default_options ?a0
               = Some (Inr \<lparr> filePath = example_path, fileName = example_file_name,
                             fileSize = 3, contentType = ''application/pdf'' \<rparr>, ?a3)"
    using thm1 [where st = ?a0 and k = 2, THEN conjunct1, THEN conjunct1] ka fa a2 sa2
    by simp
  \<comment> \<open>the second run\<close>
  let ?b0 = "start_state [Resolved token_page, Rejected Timeout, Resolved overflowing,
                          Resolved broken_stream, ?file]"
  let ?b1 = "\<lparr> world = [Resolved overflowing, Resolved broken_stream, ?file],
               requests = [example_url, example_confirm_url], sleeps = [1000],
               fs_calls = [] \<rparr>"
  let ?b2 = "\<lparr> world = [Resolved broken_stream, ?file],
               requests = [example_url, example_confirm_url, example_url],
               sleeps = [1000, 2000], fs_calls = ?calls1 \<rparr>"
  let ?b3 = "\<lparr> world = [?file],
               requests = [example_url, example_confirm_url, example_url, example_url],
               sleeps = [1000, 2000], fs_calls = ?calls2 \<rparr>"
  have b0: "?T ?b0 = Some (Inl (VirusScanPageFailed (TransportFailure Timeout)),
                           \<lparr> world = [Resolved overflowing, Resolved broken_stream, ?file],
                             requests = [example_url, example_confirm_url], sleeps = [],
                             fs_calls = [] \<rparr>)"
    unfolding T
    by (subst confirmation_then_failure
          [where answer = "Rejected Timeout"
             and rest = "[Resolved overflowing, Resolved broken_stream, ?file]"
             and e = "TransportFailure Timeout"])
       (simp_all add: start_state_def Rejected_fails)
  have sb1: "state_before_attempt ?T ?b0 1 = ?b1"
    using b0 by (simp add: backoff_def)
  have b1: "?T ?b1 = Some (Inl StreamedSizeExceedsLimit,
                           \<lparr> world = [Resolved broken_stream, ?file],
                             requests = [example_url, example_confirm_url, example_url],
                             sleeps = [1000], fs_calls = ?calls1 \<rparr>)"
    unfolding T by (subst try_overflowing [where rest = "[Resolved broken_stream, ?file]"])
                   simp_all
  have sb2: "state_before_attempt ?T ?b0 2 = ?b2"
    using b1 sb1 by (simp add: backoff_def numeral_2_eq_2)
  have b2: "?T ?b2 = Some (Inl (TransportFailure ConnectionRefused), ?b3)"
    unfolding T by (subst try_broken_stream [where rest = "[?file]"])
                   (simp_all add: temp_dirs small_limit_3)
  have fb: "\<forall>i<max_attempts_of default_options. attempt_fails ?T ?b0 i"
  proof (intro allI impI)
    fix i :: nat assume "i < max_attempts_of default_options"
    then consider "i = 0" | "i = 1" | "i = 2" unfolding default_attempts by linarith
    then show "attempt_fails ?T ?b0 i"
    proof cases
      case 1
      then show ?thesis using b0 by (simp add: attempt_fails_iff)
    next
      case 2
      then show ?thesis unfolding attempt_fails_iff using b1 sb1 by simp
    next
      case 3
      then show ?thesis unfolding attempt_fails_iff using b2 sb2 by simp
    qed
  qed
  have lastb: "?T (state_before_attempt ?T ?b0 (max_attempts_of default_options - 1))
               = Some (Inl (TransportFailure ConnectionRefused), ?b3)"
    using b2 sb2 by (simp add: default_attempts)
  have second: "attemptDownload 1 scripted_axios plain_libs small_config example_url example_id
                  default_options ?b0
                = Some (Inl (TransportFailure ConnectionRefused), ?b3)"
    using thm1 [where st = ?b0, THEN conjunct1, THEN conjunct2, THEN conjunct1] fb lastb
    by simp
  \<comment> \<open>the download\<close>
  have dl: "downloadGoogleDriveFile 1 scripted_axios plain_libs small_config example_id
              default_options st
            = attemptDownload 1 scripted_axios plain_libs small_config example_url example_id
                default_options st" for st
    using thm1 [where st = st, THEN conjunct2, THEN conjunct1] example_id_valid
    by (simp only: example_url_unfold)
  have short: "\<not> isValidFileId ''short''" by code_simp
  have third: "downloadGoogleDriveFile 1 scripted_axios plain_libs small_config ''short''
                 default_options (start_state [oversized])
               = Some (Inl (UrlError (Error ''Invalid file ID provided'')), start_state [oversized])"
    using thm1 [where ?st2.0 = "start_state [oversized]", THEN conjunct2, THEN conjunct2] short
    by simp
  show ?thesis
    unfolding dl first second third by simp
qed

text \<open>
  C2 as stated fails: three responses that declare 60000000 bytes, above the limit of
  50 MB, make three requests, each attempt failing with the file-size error, and so
  do three confirmation pages without a token.
\<close>

theorem file_too_large_is_retried:
  "map_option (\<lambda>(r, st). (r, requests st, sleeps st))
     (downloadGoogleDriveFile 0 scripted_axios plain_libs default_config example_id default_options
        (start_state [oversized, oversized, oversized]))
   = Some (Inl (DeclaredSizeExceedsLimit 60000000),
           [example_url, example_url, example_url], [1000, 2000]) \<and>
   map_option (\<lambda>(r, st). (r, requests st, sleeps st))
     (downloadGoogleDriveFile 0 scripted_axios plain_libs default_config example_id default_options
        (start_state [page_without_token, page_without_token, page_without_token]))
   = Some (Inl (VirusScanPageFailed CouldNotExtractToken),
           [example_url, example_url, example_url], [1000, 2000])"
proof -
  have url: "generateDownloadUrl example_id = Inr example_url" by (rule example_download_url)
  have ne: "example_id \<noteq> []" by (simp add: example_id_def)
  have a: "attemptDownload_loop (\<lambda>_ _ _ _. None) scripted_axios plain_libs default_config example_url
             example_id default_options 3 1 None (start_state [oversized, oversized, oversized])
           = Some (Inl (DeclaredSizeExceedsLimit 60000000),
               (start_state [oversized, oversized, oversized])
                 \<lparr>world := [],
                  requests := requests (start_state [oversized, oversized, oversized])
                    @ replicate (length [oversized, oversized, oversized]) example_url,
                  sleeps := sleeps (start_state [oversized, oversized, oversized])
                    @ map backoff [1 ..< 3]\<rparr>)"
    by (rule loop_all_direct_failures) (simp_all add: oversized_fails start_state_def)
  have b: "attemptDownload_loop (\<lambda>_ _ _ _. None) scripted_axios plain_libs default_config example_url
             example_id default_options 3 1 None
             (start_state [page_without_token, page_without_token, page_without_token])
           = Some (Inl (VirusScanPageFailed CouldNotExtractToken),
               (start_state [page_without_token, page_without_token, page_without_token])
                 \<lparr>world := [],
                  requests := requests (start_state [page_without_token, page_without_token, page_without_token])
                    @ replicate (length [page_without_token, page_without_token, page_without_token]) example_url,
                  sleeps := sleeps (start_state [page_without_token, page_without_token, page_without_token])
                    @ map backoff [1 ..< 3]\<rparr>)"
    by (rule loop_all_direct_failures) (simp_all add: page_without_token_fails start_state_def)
  have run: "downloadGoogleDriveFile 0 scripted_axios plain_libs default_config example_id
               default_options st
             = attemptDownload_loop (\<lambda>_ _ _ _. None) scripted_axios plain_libs default_config
                 example_url example_id default_options 3 1 None st" for st
    by (simp only: downloadGoogleDriveFile_def ne url if_False sum.case attemptDownload.simps
          attemptDownload_with_def default_attempts)
  show ?thesis
    unfolding run a b by (simp add: upt_conv_Cons backoff_def start_state_def)
qed

text \<open>
  C4, as the code has it. Each time a token is extracted from a confirmation page,
  \<open>handleVirusScanPage\<close> calls \<open>attemptDownload\<close> on the confirmation URL
  \<open>.../uc?export=download&confirm=<token>&id=<id>\<close> with \<open>maxRetries\<close> set to 1, whatever
  the \<open>maxRetries\<close> of the caller: the call runs the body of the retry loop once and
  its failure comes back wrapped. The call waits no delay; it requests the
  confirmation URL first, and nothing else when the answer is not another HTML page;
  when the answer is another confirmation page the same handling goes on with it, so
  that what else is requested are confirmation URLs. An attempt whose response is an
  HTML page is the handling of that page: the wrapped failure is the failure of the
  attempt of the caller, whose retry loop, when an attempt is left, waits its delay
  and runs the whole attempt again.
\<close>

theorem confirmation_download_single_attempt:
  "streamToString (data page) = Inr html \<longrightarrow> extractConfirmationToken html = Some token \<longrightarrow>
   generateConfirmationUrl fid token = Inr confirmUrl \<longrightarrow>
     confirmUrl = ''https://drive.google.com/uc?export=download&confirm='' @ token @ ''&id='' @ fid \<and>
     handleVirusScanPage (attemptDownload depth axios lib cfg) page fid opts st
       = (case attemptDownload_try (nested_attemptDownload depth axios lib cfg) axios lib cfg
                 confirmUrl fid (opts\<lparr>dl_maxRetries := Some 1\<rparr>) st of
            None \<Rightarrow> None
          | Some (Inl e, st') \<Rightarrow> Some (Inl (VirusScanPageFailed e), st')
          | Some (Inr result, st') \<Rightarrow> Some (Inr result, st')) \<and>
     (handleVirusScanPage (attemptDownload depth axios lib cfg) page fid opts st = Some (out, st')
        \<longrightarrow> sleeps st' = sleeps st \<and>
            (\<exists>rs. requests st' = requests st @ confirmUrl # rs \<and>
                  list_all (is_confirmation_url fid) rs)) \<and>
     (axios confirmUrl (world st) = (answer, w') \<longrightarrow> \<not> is_html_result answer \<longrightarrow>
      handleVirusScanPage (attemptDownload depth axios lib cfg) page fid opts st = Some (out, st')
        \<longrightarrow> requests st' = requests st @ [confirmUrl]) \<and>
     (axios url (world st0) = (Resolved response, w0) \<longrightarrow> is_html response \<longrightarrow>
      attemptDownload_try self axios lib cfg url fid opts st0
        = handleVirusScanPage self response fid opts
            (st0\<lparr>world := w0, requests := requests st0 @ [url]\<rparr>)) \<and>
     (attemptDownload_try self axios lib cfg url fid opts st0
        = Some (Inl (VirusScanPageFailed e), st1) \<longrightarrow> attempt < maxR \<longrightarrow>
      attemptDownload_loop self axios lib cfg url fid opts maxR attempt lastError st0
        = attemptDownload_loop self axios lib cfg url fid opts maxR (Suc attempt)
            (Some (VirusScanPageFailed e)) (st1\<lparr>sleeps := sleeps st1 @ [backoff attempt]\<rparr>))"
proof (intro impI)
  assume page: "streamToString (data page) = Inr html" "extractConfirmationToken html = Some token"
    "generateConfirmationUrl fid token = Inr confirmUrl"
  let ?handle = "handleVirusScanPage (attemptDownload depth axios lib cfg) page fid opts st"
  let ?nested = "attemptDownload_try (nested_attemptDownload depth axios lib cfg) axios lib cfg
                   confirmUrl fid (opts\<lparr>dl_maxRetries := Some 1\<rparr>) st"
  have u: "confirmUrl = ''https://drive.google.com/uc?export=download&confirm='' @ token @ ''&id='' @ fid"
    using page(3) by (simp add: generateConfirmationUrl_def split: if_splits)
  have unfold: "?handle = (case ?nested of
            None \<Rightarrow> None
          | Some (Inl e, st') \<Rightarrow> Some (Inl (VirusScanPageFailed e), st')
          | Some (Inr result, st') \<Rightarrow> Some (Inr result, st'))"
    by (rule handle_page_unfold [OF page])
  have nested: "\<exists>out'. ?nested = Some (out', st')" if "?handle = Some (out, st')"
    using that unfolding unfold by (auto split: option.splits sum.splits prod.splits)
  have quiet: "sleeps st' = sleeps st \<and>
            (\<exists>rs. requests st' = requests st @ confirmUrl # rs \<and>
                  list_all (is_confirmation_url fid) rs)"
    if h: "?handle = Some (out, st')"
  proof -
    obtain out' where "?nested = Some (out', st')" using nested [OF h] by blast
    then show ?thesis by (rule try_quiet [OF nested_quiet])
  qed
  have once: "requests st' = requests st @ [confirmUrl]"
    if ax: "axios confirmUrl (world st) = (answer, w')" and nh: "\<not> is_html_result answer"
      and h: "?handle = Some (out, st')"
  proof -
    obtain out' where "?nested = Some (out', st')" using nested [OF h] by blast
    then show ?thesis
      using try_effects [where axios = axios and url = confirmUrl and st = st, OF ax nh] by blast
  qed
  have outer: "attemptDownload_loop self axios lib cfg url fid opts maxR attempt lastError st0
        = attemptDownload_loop self axios lib cfg url fid opts maxR (Suc attempt)
            (Some (VirusScanPageFailed e)) (st1\<lparr>sleeps := sleeps st1 @ [backoff attempt]\<rparr>)"
    if "attemptDownload_try self axios lib cfg url fid opts st0
          = Some (Inl (VirusScanPageFailed e), st1)" "attempt < maxR"
    using that(2,1) by (rule dl_loop_retry)
  have attempt_on_page: "attemptDownload_try self axios lib cfg url fid opts st0
        = handleVirusScanPage self response fid opts
            (st0\<lparr>world := w0, requests := requests st0 @ [url]\<rparr>)"
    if "axios url (world st0) = (Resolved response, w0)" "is_html response"
    using that by (simp add: attemptDownload_try_def)
  show "confirmUrl = ''https://drive.google.com/uc?export=download&confirm='' @ token @ ''&id='' @ fid \<and>
     ?handle
       = (case ?nested of
            None \<Rightarrow> None
          | Some (Inl e, st') \<Rightarrow> Some (Inl (VirusScanPageFailed e), st')
          | Some (Inr result, st') \<Rightarrow> Some (Inr result, st')) \<and>
     (?handle = Some (out, st')
        \<longrightarrow> sleeps st' = sleeps st \<and>
            (\<exists>rs. requests st' = requests st @ confirmUrl # rs \<and>
                  list_all (is_confirmation_url fid) rs)) \<and>
     (axios confirmUrl (world st) = (answer, w') \<longrightarrow> \<not> is_html_result answer \<longrightarrow>
      ?handle = Some (out, st')
        \<longrightarrow> requests st' = requests st @ [confirmUrl]) \<and>
     (axios url (world st0) = (Resolved response, w0) \<longrightarrow> is_html response \<longrightarrow>
      attemptDownload_try self axios lib cfg url fid opts st0
        = handleVirusScanPage self response fid opts
            (st0\<lparr>world := w0, requests := requests st0 @ [url]\<rparr>)) \<and>
     (attemptDownload_try self axios lib cfg url fid opts st0
        = Some (Inl (VirusScanPageFailed e), st1) \<longrightarrow> attempt < maxR \<longrightarrow>
      attemptDownload_loop self axios lib cfg url fid opts maxR attempt lastError st0
        = attemptDownload_loop self axios lib cfg url fid opts maxR (Suc attempt)
            (Some (VirusScanPageFailed e)) (st1\<lparr>sleeps := sleeps st1 @ [backoff attempt]\<rparr>))"
    using u unfold quiet once attempt_on_page outer by blast
qed

text \<open>
  A confirmation page handled with a budget of five attempts. When the request of
  the confirmation URL times out, it is made once and the failure comes back wrapped,
  with no delay. When it is answered by another confirmation page and then by the
  file, the confirmation URL is requested twice, with no delay.
\<close>

theorem confirmation_download_single_attempt_witness:
  "handleVirusScanPage (attemptDownload 0 scripted_axios plain_libs default_config) token_page
     example_id \<lparr> dl_maxRetries = Some 5 \<rparr> (start_state [Rejected Timeout, oversized])
   = Some (Inl (VirusScanPageFailed (TransportFailure Timeout)),
           \<lparr> world = [oversized], requests = [example_confirm_url], sleeps = [],
             fs_calls = [] \<rparr>) \<and>
   handleVirusScanPage (attemptDownload 1 scripted_axios plain_libs default_config) token_page
     example_id \<lparr> dl_maxRetries = Some 5 \<rparr>
     (start_state [Resolved token_page, Resolved (file_response ''3'' [''abc''])])
   = Some (Inr \<lparr> filePath = example_path, fileName = example_file_name, fileSize = 3,
                contentType = ''application/pdf'' \<rparr>,
           \<lparr> world = [], requests = [example_confirm_url, example_confirm_url], sleeps = [],
             fs_calls = [EnsureDir ''/tmp/gdrive'', CreateWriteStream example_path,
                         WriteChunk example_path ''abc'', EndWriteStream example_path] \<rparr>)"
proof -
  let ?opts = "\<lparr> dl_maxRetries = Some 5 \<rparr>"
  let ?one = "\<lparr> dl_maxRetries = Some 1 \<rparr>"
  have handle:
    "handleVirusScanPage (attemptDownload depth scripted_axios plain_libs default_config)
       token_page example_id opts st
     = (case attemptDownload_try (nested_attemptDownload depth scripted_axios plain_libs default_config)
               scripted_axios plain_libs default_config example_confirm_url example_id
               (opts\<lparr>dl_maxRetries := Some 1\<rparr>) st of
          None \<Rightarrow> None
        | Some (Inl e, st') \<Rightarrow> Some (Inl (VirusScanPageFailed e), st')
        | Some (Inr result, st') \<Rightarrow> Some (Inr result, st'))" for depth opts st
    using confirmation_download_single_attempt
      [where page = token_page and html = "''<a href=/uc?export=download&confirm=t0K&id=x>''"
         and token = "''t0K''" and fid = example_id and confirmUrl = example_confirm_url
         and axios = scripted_axios and lib = plain_libs and cfg = default_config
         and depth = depth and opts = opts and st = st]
      token_page_facts(2) token_in_page confirm_url_for_token
    by blast
  \<comment> \<open>the request times out\<close>
  let ?a0 = "start_state [Rejected Timeout, oversized]"
  have ax: "scripted_axios example_confirm_url (world ?a0) = (Rejected Timeout, [oversized])"
    by (simp add: scripted_axios_def start_state_def)
  have a: "attemptDownload_try (nested_attemptDownload 0 scripted_axios plain_libs default_config)
             scripted_axios plain_libs default_config example_confirm_url example_id ?one ?a0
           = Some (Inl (TransportFailure Timeout),
                   ?a0\<lparr>world := [oversized], requests := requests ?a0 @ [example_confirm_url]\<rparr>)"
    by (rule try_direct_failure [where axios = scripted_axios, OF ax Rejected_fails])
  have first: "handleVirusScanPage (attemptDownload 0 scripted_axios plain_libs default_config)
                 token_page example_id ?opts ?a0
               = Some (Inl (VirusScanPageFailed (TransportFailure Timeout)),
                       \<lparr> world = [oversized], requests = [example_confirm_url], sleeps = [],
                         fs_calls = [] \<rparr>)"
    unfolding handle using a by (simp add: start_state_def)
  \<comment> \<open>the request is answered by another confirmation page\<close>
  let ?file = "Resolved (file_response ''3'' [''abc''])"
  let ?b0 = "start_state [Resolved token_page, ?file]"
  let ?b1 = "\<lparr> world = [?file], requests = [example_confirm_url], sleeps = [], fs_calls = [] \<rparr>"
  let ?b2 = "\<lparr> world = [], requests = [example_confirm_url, example_confirm_url], sleeps = [],
               fs_calls = [EnsureDir ''/tmp/gdrive'', CreateWriteStream example_path,
                           WriteChunk example_path ''abc'', EndWriteStream example_path] \<rparr>"
  have limit: "3 \<le> MAX_FILE_SIZE_BYTES default_config" by (simp add: default_limit)
  have inner: "attemptDownload_try (nested_attemptDownload 0 scripted_axios plain_libs default_config)
                 scripted_axios plain_libs default_config example_confirm_url example_id ?one ?b1
               = Some (Inr \<lparr> filePath = example_path, fileName = example_file_name, fileSize = 3,
                             contentType = ''application/pdf'' \<rparr>, ?b2)"
    by (subst try_small_file [where rest = "[]"]) (simp_all add: temp_dirs limit)
  have page2: "handleVirusScanPage (attemptDownload 0 scripted_axios plain_libs default_config)
                 token_page example_id ?one ?b1
               = Some (Inr \<lparr> filePath = example_path, fileName = example_file_name, fileSize = 3,
                             contentType = ''application/pdf'' \<rparr>, ?b2)"
    unfolding handle using inner by simp
  have ax2: "scripted_axios example_confirm_url (world ?b0) = (Resolved token_page, [?file])"
    by (simp add: scripted_axios_def start_state_def)
  have outer: "attemptDownload_try (nested_attemptDownload 1 scripted_axios plain_libs default_config)
                 scripted_axios plain_libs default_config example_confirm_url example_id ?one ?b0
               = Some (Inr \<lparr> filePath = example_path, fileName = example_file_name, fileSize = 3,
                             contentType = ''application/pdf'' \<rparr>, ?b2)"
    using ax2 token_page_facts(1) page2
    by (simp add: attemptDownload_try_def nested_attemptDownload_def start_state_def)
  have second: "handleVirusScanPage (attemptDownload 1 scripted_axios plain_libs default_config)
                  token_page example_id ?opts ?b0
                = Some (Inr \<lparr> filePath = example_path, fileName = example_file_name, fileSize = 3,
                              contentType = ''application/pdf'' \<rparr>, ?b2)"
    unfolding handle using outer by simp
  show ?thesis using first second by simp
qed

text \<open>
  C4 as stated fails: with the default budget of three attempts, a run in which every
  request of the confirmation URL times out requests the confirmation URL three
  times, once in each outer attempt.
\<close>

theorem confirmation_requested_three_times:
  "map_option (\<lambda>(r, st). (r, requests st, length (filter (\<lambda>u. u = example_confirm_url) (requests st))))
     (downloadGoogleDriveFile 1 scripted_axios plain_libs default_config example_id default_options
        (start_state [Resolved token_page, Rejected Timeout, Resolved token_page, Rejected Timeout,
                      Resolved token_page, Rejected (HttpStatus 500)]))
   = Some (Inl (VirusScanPageFailed (TransportFailure (HttpStatus 500))),
           [example_url, example_confirm_url, example_url, example_confirm_url,
            example_url, example_confirm_url], 3)"
proof -
  let ?loop = "attemptDownload_loop (attemptDownload 0 scripted_axios plain_libs default_config)
                 scripted_axios plain_libs default_config example_url example_id default_options 3"
  let ?att = "attemptDownload_try (attemptDownload 0 scripted_axios plain_libs default_config)
                 scripted_axios plain_libs default_config example_url example_id default_options"
  let ?s0 = "start_state [Resolved token_page, Rejected Timeout, Resolved token_page, Rejected Timeout,
                      Resolved token_page, Rejected (HttpStatus 500)]"
  let ?s1 = "\<lparr> world = [Resolved token_page, Rejected Timeout, Resolved token_page, Rejected (HttpStatus 500)],
               requests = [example_url, example_confirm_url], sleeps = [],
               fs_calls = [] \<rparr>"
  let ?s2 = "\<lparr> world = [Resolved token_page, Rejected (HttpStatus 500)],
               requests = [example_url, example_confirm_url, example_url, example_confirm_url],
               sleeps = [backoff 1], fs_calls = [] \<rparr>"
  let ?s3 = "\<lparr> world = [],
               requests = [example_url, example_confirm_url, example_url, example_confirm_url,
                           example_url, example_confirm_url],
               sleeps = [backoff 1, backoff 2], fs_calls = [] \<rparr>"
  have url: "generateDownloadUrl example_id = Inr example_url" by (rule example_download_url)
  have ne: "example_id \<noteq> []" by (simp add: example_id_def)
  have run: "downloadGoogleDriveFile 1 scripted_axios plain_libs default_config example_id
               default_options st = ?loop 1 None st" for st
    by (simp only: downloadGoogleDriveFile_def ne url if_False sum.case One_nat_def
          attemptDownload.simps attemptDownload_with_def default_attempts)
  have t1: "?att ?s0 = Some (Inl (VirusScanPageFailed (TransportFailure Timeout)), ?s1)"
    using confirmation_then_failure
      [where st = ?s0 and answer = "Rejected Timeout" and e = "TransportFailure Timeout"
         and opts = default_options and cfg = default_config]
    by (simp add: start_state_def Rejected_fails)
  have t2: "?att (?s1\<lparr>sleeps := sleeps ?s1 @ [backoff 1]\<rparr>)
            = Some (Inl (VirusScanPageFailed (TransportFailure Timeout)), ?s2)"
    using confirmation_then_failure
      [where st = "?s1\<lparr>sleeps := sleeps ?s1 @ [backoff 1]\<rparr>" and answer = "Rejected Timeout"
         and e = "TransportFailure Timeout" and opts = default_options and cfg = default_config]
    by (simp add: Rejected_fails)
  have t3: "?att (?s2\<lparr>sleeps := sleeps ?s2 @ [backoff 2]\<rparr>)
            = Some (Inl (VirusScanPageFailed (TransportFailure (HttpStatus 500))), ?s3)"
    using confirmation_then_failure
      [where st = "?s2\<lparr>sleeps := sleeps ?s2 @ [backoff 2]\<rparr>"
         and answer = "Rejected (HttpStatus 500)" and e = "TransportFailure (HttpStatus 500)"
         and opts = default_options and cfg = default_config]
    by (simp add: Rejected_fails)
  have "?loop 1 None ?s0
        = ?loop 2 (Some (VirusScanPageFailed (TransportFailure Timeout)))
            (?s1\<lparr>sleeps := sleeps ?s1 @ [backoff 1]\<rparr>)"
    using dl_loop_retry [OF _ t1, of 1 3 None] by (simp add: numeral_2_eq_2)
  also have "\<dots> = ?loop 3 (Some (VirusScanPageFailed (TransportFailure Timeout)))
            (?s2\<lparr>sleeps := sleeps ?s2 @ [backoff 2]\<rparr>)"
    using dl_loop_retry [OF _ t2, of 2 3 "Some (VirusScanPageFailed (TransportFailure Timeout))"]
    by (simp add: numeral_3_eq_3 numeral_2_eq_2)
  also have "\<dots> = Some (Inl (VirusScanPageFailed (TransportFailure (HttpStatus 500))), ?s3)"
    by (rule dl_loop_give_up [OF t3])
  finally show ?thesis
    unfolding run by simp (simp add: example_url_def example_confirm_url_def)
qed





end
